theory Spec2Isabelle
  imports Main "HOL-Library.Word" "HOL-Library.Signed_Division"
begin

section \<open>The amzn-sfp EEPROM driver: data model\<close>

text \<open>
  The development embeds \<^verbatim>\<open>drivers/misc/sfp/amzn-sfp.c\<close>. The target is an LP64 kernel:
  \<^verbatim>\<open>loff_t\<close>, \<^verbatim>\<open>size_t\<close> and \<^verbatim>\<open>unsigned long\<close> are 64-bit words, \<^verbatim>\<open>int\<close> is a 32-bit
  word, \<^verbatim>\<open>u16\<close> and \<^verbatim>\<open>u8\<close>/\<^verbatim>\<open>char\<close> are 16- and 8-bit words. Word arithmetic wraps,
  as the kernel's does (it is built with \<^verbatim>\<open>-fno-strict-overflow\<close>).
\<close>

type_synonym u8 = "8 word"
type_synonym u16 = "16 word"
type_synonym cint = "32 word"
type_synonym u64 = "64 word"

text \<open>The module type constants and the EEPROM sizes (lines 29-43).\<close>

definition AMZN_SFP_TYPE_SFP_PLUS :: int where "AMZN_SFP_TYPE_SFP_PLUS = 1"
definition AMZN_SFP_TYPE_QSFP_PLUS :: int where "AMZN_SFP_TYPE_QSFP_PLUS = 2"
definition AMZN_SFP_TYPE_QSFP28 :: int where "AMZN_SFP_TYPE_QSFP28 = 3"
definition AMZN_SFP_TYPE_QSFP_DD :: int where "AMZN_SFP_TYPE_QSFP_DD = 4"

definition AMZN_SFP_FULL_SIZE :: u64 where "AMZN_SFP_FULL_SIZE = 256"
definition AMZN_SFP_HALF_SIZE :: u64 where "AMZN_SFP_HALF_SIZE = 128"
definition AMZN_QSFP_PAGE_SELECT :: u8 where "AMZN_QSFP_PAGE_SELECT = 127"
definition I2C_M_RD :: u16 where "I2C_M_RD = 1"

text \<open>
  \<^verbatim>\<open>struct amzn_sfp_softc\<close> (lines 46-53). Of \<^verbatim>\<open>attr\<close> the driver reads the size only, of
  \<^verbatim>\<open>client\<close> the bus address only. \<^verbatim>\<open>cur_page\<close> is a C \<^verbatim>\<open>int\<close> that only ever holds
  \<open>-1\<close> or the value of a \<^verbatim>\<open>char\<close>, so it is kept as an \<^typ>\<open>int\<close>. The mutex is not
  modelled: one call of the access function is one critical section.
\<close>

record amzn_sfp_softc =
  attr_size :: u64
  client_addr :: u16
  sfp_type :: int
  cur_page :: int
  cur_page_ts :: u64

text \<open>
  What the kernel and the compiler fix, and this file does not: the tick rate \<^verbatim>\<open>HZ\<close>, the
  macro \<^verbatim>\<open>time_in_range\<close>, the function \<^verbatim>\<open>msecs_to_jiffies\<close>, and whether plain
  \<^verbatim>\<open>char\<close> is signed (it is on x86, it is not on arm64). They are parameters.
\<close>

record kernel =
  HZ :: cint
  time_in_range :: "u64 \<Rightarrow> u64 \<Rightarrow> u64 \<Rightarrow> bool"
  msecs_to_jiffies :: "cint \<Rightarrow> u64"
  char_signed :: bool

text \<open>The two sysctl tunables (lines 59 and 64), both C \<^verbatim>\<open>int\<close>s.\<close>

record tunables =
  amzn_sfp_page_retention :: cint
  amzn_sfp_page_load_wait_ms :: cint

definition default_tunables :: tunables where
  "default_tunables = \<lparr>amzn_sfp_page_retention = 1, amzn_sfp_page_load_wait_ms = 4\<rparr>"

text \<open>
  The access function has no loop, so each of its interactions with the outside happens at
  most once in a call. The environment of one call lists what each would answer: the value
  of \<^verbatim>\<open>jiffies\<close> at each place that reads it, the return value of each
  \<^verbatim>\<open>i2c_transfer\<close>, and the byte that the verification read leaves in \<^verbatim>\<open>iobuf[2]\<close>.
  One use of \<^verbatim>\<open>time_in_range\<close> is given one reading of \<^verbatim>\<open>jiffies\<close>.
\<close>

record env =
  j_check :: u64      \<comment> \<open>\<^verbatim>\<open>jiffies\<close> at line 178\<close>
  j_verified :: u64   \<comment> \<open>\<^verbatim>\<open>jiffies\<close> at line 213\<close>
  j_selected :: u64   \<comment> \<open>\<^verbatim>\<open>jiffies\<close> at line 244\<close>
  j_settle :: u64     \<comment> \<open>\<^verbatim>\<open>jiffies\<close> at line 290\<close>
  verify_ret :: int   \<comment> \<open>\<^verbatim>\<open>i2c_transfer\<close> at line 197\<close>
  verify_byte :: u8   \<comment> \<open>\<^verbatim>\<open>iobuf[2]\<close> after line 197\<close>
  select_ret :: int   \<comment> \<open>\<^verbatim>\<open>i2c_transfer\<close> at line 235\<close>
  data_ret :: int     \<comment> \<open>\<^verbatim>\<open>i2c_transfer\<close> at line 295\<close>

text \<open>What a call does to the outside, in order.\<close>

record i2c_msg =
  msg_addr :: u16
  msg_flags :: u16
  msg_len :: u16
  msg_buf :: "u8 list"  \<comment> \<open>the bytes sent; empty for a read message\<close>

datatype phase = PageSelectRead | PageSelectWrite | DataPhase

datatype event =
  I2C_transfer phase "i2c_msg list"
| Dev_notice int int
| Usleep_range u64 u64

datatype errno = ESPIPE | EINVAL | ENOSPC | EPIPE | Errno int

fun is_page_select :: "event \<Rightarrow> bool" where
  "is_page_select (I2C_transfer PageSelectRead _) = True"
| "is_page_select (I2C_transfer PageSelectWrite _) = True"
| "is_page_select _ = False"

fun is_page_read :: "event \<Rightarrow> bool" where
  "is_page_read (I2C_transfer PageSelectRead _) = True"
| "is_page_read _ = False"

fun is_page_write :: "event \<Rightarrow> bool" where
  "is_page_write (I2C_transfer PageSelectWrite _) = True"
| "is_page_write _ = False"

fun is_transfer :: "event \<Rightarrow> bool" where
  "is_transfer (I2C_transfer _ _) = True"
| "is_transfer _ = False"

fun is_data :: "event \<Rightarrow> bool" where
  "is_data (I2C_transfer DataPhase _) = True"
| "is_data _ = False"

fun is_sleep :: "event \<Rightarrow> bool" where
  "is_sleep (Usleep_range _ _) = True"
| "is_sleep _ = False"

section \<open>The access function\<close>

text \<open>C's \<^verbatim>\<open>/\<close> and \<^verbatim>\<open>%\<close> on \<^verbatim>\<open>loff_t\<close>: signed, truncating.\<close>

definition c_div :: "u64 \<Rightarrow> u64 \<Rightarrow> u64" where
  "c_div a b = word_of_int (sint a sdiv sint b)"

definition c_mod :: "u64 \<Rightarrow> u64 \<Rightarrow> u64" where
  "c_mod a b = word_of_int (sint a smod sint b)"

text \<open>A \<^verbatim>\<open>char\<close> promoted to \<^verbatim>\<open>int\<close>.\<close>

definition char_to_int :: "kernel \<Rightarrow> u8 \<Rightarrow> int" where
  "char_to_int k c = (if char_signed k then sint c else uint c)"

text \<open>Lines 120-121, 137-138 and 152-153: \<^verbatim>\<open>if (len + reg > limit) len = limit - reg\<close>.\<close>

definition clamp_len :: "u64 \<Rightarrow> u8 \<Rightarrow> u64 \<Rightarrow> u64" where
  "clamp_len len reg limit = (if limit < len + ucast reg then limit - ucast reg else len)"

text \<open>Lines 146 and 149: the desired page and the register on the page.\<close>

definition desired_page :: "u64 \<Rightarrow> u8" where
  "desired_page ofs = ucast (c_div ofs AMZN_SFP_HALF_SIZE - 1)"

definition page_reg :: "u64 \<Rightarrow> u8" where
  "page_reg ofs = ucast (c_mod ofs AMZN_SFP_HALF_SIZE + AMZN_SFP_HALF_SIZE)"

text \<open>The two messages of the verification read (lines 185-195) and the message of the
  page-select write (lines 228-233).\<close>

definition page_read_msgs :: "u16 \<Rightarrow> i2c_msg list" where
  "page_read_msgs addr =
     [\<lparr>msg_addr = addr, msg_flags = 0, msg_len = 1, msg_buf = [AMZN_QSFP_PAGE_SELECT]\<rparr>,
      \<lparr>msg_addr = addr, msg_flags = I2C_M_RD, msg_len = 1, msg_buf = []\<rparr>]"

definition page_write_msgs :: "u16 \<Rightarrow> u8 \<Rightarrow> i2c_msg list" where
  "page_write_msgs addr page =
     [\<lparr>msg_addr = addr, msg_flags = 0, msg_len = 2, msg_buf = [AMZN_QSFP_PAGE_SELECT, page]\<rparr>]"

text \<open>Line 177-178: is the cached page to be verified against the hardware?\<close>

definition page_stale :: "kernel \<Rightarrow> tunables \<Rightarrow> env \<Rightarrow> amzn_sfp_softc \<Rightarrow> bool" where
  "page_stale k t e sc =
     (let ts = cur_page_ts sc + scast (amzn_sfp_page_retention t * HZ k)
      in cur_page sc = - 1 \<or> \<not> time_in_range k (j_check e) (cur_page_ts sc) ts)"

text \<open>
  Lines 176-214: the verification read. The result is \<open>Some err\<close> where the function
  returns early, with the session and the events so far.
\<close>

definition page_verify ::
  "kernel \<Rightarrow> tunables \<Rightarrow> env \<Rightarrow> amzn_sfp_softc \<Rightarrow> u16 \<Rightarrow> int option \<times> amzn_sfp_softc \<times> event list"
where
  "page_verify k t e sc addr =
     (if page_stale k t e sc then
        (let ev = [I2C_transfer PageSelectRead (page_read_msgs addr)] in
         if verify_ret e < 0 then (Some (verify_ret e), sc\<lparr>cur_page := - 1\<rparr>, ev)
         else
           (let seen = char_to_int k (verify_byte e);
                notice = (if seen \<noteq> cur_page sc \<and> cur_page sc \<noteq> - 1
                          then [Dev_notice seen (cur_page sc)] else []);
                sc1 = (if seen \<noteq> cur_page sc then sc\<lparr>cur_page := seen\<rparr> else sc)
            in (None, sc1\<lparr>cur_page_ts := j_verified e\<rparr>, ev @ notice)))
      else (None, sc, []))"

text \<open>Lines 216-245: the page-select write, skipped when the page is the current one.\<close>

definition page_write ::
  "kernel \<Rightarrow> env \<Rightarrow> amzn_sfp_softc \<Rightarrow> u16 \<Rightarrow> u8 \<Rightarrow> int option \<times> amzn_sfp_softc \<times> event list"
where
  "page_write k e sc addr page =
     (if char_to_int k page = cur_page sc then (None, sc, [])
      else
        (let ev = [I2C_transfer PageSelectWrite (page_write_msgs addr page)] in
         if select_ret e < 0 then (Some (select_ret e), sc\<lparr>cur_page := - 1\<rparr>, ev)
         else (None, sc\<lparr>cur_page := char_to_int k page, cur_page_ts := j_selected e\<rparr>, ev)))"

text \<open>Lines 176-245 together: verify, then select.\<close>

definition page_select ::
  "kernel \<Rightarrow> tunables \<Rightarrow> env \<Rightarrow> amzn_sfp_softc \<Rightarrow> u16 \<Rightarrow> u8 \<Rightarrow> int option \<times> amzn_sfp_softc \<times> event list"
where
  "page_select k t e sc addr page =
     (case page_verify k t e sc addr of
        (Some err, sc1, ev1) \<Rightarrow> (Some err, sc1, ev1)
      | (None, sc1, ev1) \<Rightarrow>
          (case page_write k e sc1 addr page of
             (r, sc2, ev2) \<Rightarrow> (r, sc2, ev1 @ ev2)))"

text \<open>
  Lines 112-254, the \<^verbatim>\<open>switch\<close>: either an early return with an error, or the bus
  address, the register and the length of the data phase.
\<close>

definition is_qsfp :: "int \<Rightarrow> bool" where
  "is_qsfp ty \<longleftrightarrow> ty = AMZN_SFP_TYPE_QSFP_PLUS \<or> ty = AMZN_SFP_TYPE_QSFP28 \<or> ty = AMZN_SFP_TYPE_QSFP_DD"

definition translate ::
  "kernel \<Rightarrow> tunables \<Rightarrow> env \<Rightarrow> amzn_sfp_softc \<Rightarrow> u64 \<Rightarrow> u64 \<Rightarrow>
   (int + u16 \<times> u8 \<times> u64) \<times> amzn_sfp_softc \<times> event list"
where
  "translate k t e sc ofs len =
     (let addr = client_addr sc in
      if sfp_type sc = AMZN_SFP_TYPE_SFP_PLUS then
        (let addr1 = addr + ucast (c_div ofs AMZN_SFP_FULL_SIZE);
             reg = ucast (c_mod ofs AMZN_SFP_FULL_SIZE)
         in (Inr (addr1, reg, clamp_len len reg AMZN_SFP_FULL_SIZE), sc, []))
      else if is_qsfp (sfp_type sc) then
        (if ofs <s AMZN_SFP_HALF_SIZE then
           (let reg = ucast ofs
            in (Inr (addr, reg, clamp_len len reg AMZN_SFP_HALF_SIZE), sc, []))
         else
           (let reg = page_reg ofs;
                len1 = clamp_len len reg AMZN_SFP_FULL_SIZE
            in case page_select k t e sc addr (desired_page ofs) of
                 (Some err, sc1, ev) \<Rightarrow> (Inl err, sc1, ev)
               | (None, sc1, ev) \<Rightarrow> (Inr (addr, reg, len1), sc1, ev)))
      else (Inr (addr, ucast ofs, len), sc, []))"

text \<open>Lines 264-284: the messages of the data phase.\<close>

definition data_msgs :: "u16 \<Rightarrow> u8 \<Rightarrow> u8 list \<Rightarrow> u64 \<Rightarrow> u16 \<Rightarrow> i2c_msg list" where
  "data_msgs addr reg buf len flags =
     (if flags = I2C_M_RD then
        [\<lparr>msg_addr = addr, msg_flags = 0, msg_len = 1, msg_buf = [reg]\<rparr>,
         \<lparr>msg_addr = addr, msg_flags = flags, msg_len = ucast len, msg_buf = []\<rparr>]
      else
        [\<lparr>msg_addr = addr, msg_flags = 0, msg_len = ucast (len + 1),
          msg_buf = reg # take (unat len) buf\<rparr>])"

text \<open>Lines 289-293: the settle delay.\<close>

definition settle_due :: "kernel \<Rightarrow> tunables \<Rightarrow> env \<Rightarrow> amzn_sfp_softc \<Rightarrow> bool" where
  "settle_due k t e sc =
     time_in_range k (j_settle e) (cur_page_ts sc)
       (cur_page_ts sc + msecs_to_jiffies k (amzn_sfp_page_load_wait_ms t))"

definition settle :: "kernel \<Rightarrow> tunables \<Rightarrow> env \<Rightarrow> amzn_sfp_softc \<Rightarrow> event list" where
  "settle k t e sc =
     (if settle_due k t e sc then
        (let ts = scast (amzn_sfp_page_load_wait_ms t * 1000) :: u64
         in [Usleep_range ts (ts + 1000)])
      else [])"

text \<open>Lines 256-303: the chunk limit, the data phase and the result.\<close>

definition data_phase ::
  "kernel \<Rightarrow> tunables \<Rightarrow> env \<Rightarrow> amzn_sfp_softc \<Rightarrow> u16 \<Rightarrow> u8 \<Rightarrow> u8 list \<Rightarrow> u64 \<Rightarrow> u16 \<Rightarrow>
   (errno + u64) \<times> event list"
where
  "data_phase k t e sc addr reg buf len flags =
     (let len1 = (if 64 < len then 64 else len);
          msgs = data_msgs addr reg buf len1 flags;
          nmsgs = int (length msgs);
          ev = settle k t e sc @ [I2C_transfer DataPhase msgs];
          error = data_ret e
      in if error < 0 then (Inl (Errno error), ev)
         else if error \<noteq> nmsgs then (Inl EPIPE, ev)
         else (Inr len1, ev))"

text \<open>
  \<^verbatim>\<open>amzn_sfp_rw\<close> (lines 88-304). The result is the error or the byte count, the session
  afterwards, and the events of the call.
\<close>

definition amzn_sfp_rw ::
  "kernel \<Rightarrow> tunables \<Rightarrow> env \<Rightarrow> amzn_sfp_softc \<Rightarrow> u8 list \<Rightarrow> u64 \<Rightarrow> u64 \<Rightarrow> u16 \<Rightarrow>
   (errno + u64) \<times> amzn_sfp_softc \<times> event list"
where
  "amzn_sfp_rw k t e sc buf ofs len flags =
     (if ofs <s 0 \<or> attr_size sc \<le> ofs then (Inl ESPIPE, sc, [])
      else if len = 0 then (Inl EINVAL, sc, [])
      else if attr_size sc < ofs + len then (Inl ENOSPC, sc, [])
      else
        (case translate k t e sc ofs len of
           (Inl err, sc1, ev) \<Rightarrow> (Inl (Errno err), sc1, ev)
         | (Inr (addr, reg, len1), sc1, ev) \<Rightarrow>
             (case data_phase k t e sc1 addr reg buf len1 flags of
                (r, ev2) \<Rightarrow> (r, sc1, ev @ ev2))))"

definition amzn_sfp_read ::
  "kernel \<Rightarrow> tunables \<Rightarrow> env \<Rightarrow> amzn_sfp_softc \<Rightarrow> u8 list \<Rightarrow> u64 \<Rightarrow> u64 \<Rightarrow>
   (errno + u64) \<times> amzn_sfp_softc \<times> event list"
where
  "amzn_sfp_read k t e sc buf ofs len = amzn_sfp_rw k t e sc buf ofs len I2C_M_RD"

definition amzn_sfp_write ::
  "kernel \<Rightarrow> tunables \<Rightarrow> env \<Rightarrow> amzn_sfp_softc \<Rightarrow> u8 list \<Rightarrow> u64 \<Rightarrow> u64 \<Rightarrow>
   (errno + u64) \<times> amzn_sfp_softc \<times> event list"
where
  "amzn_sfp_write k t e sc buf ofs len = amzn_sfp_rw k t e sc buf ofs len 0"

text \<open>\<^verbatim>\<open>amzn_sfp_probe\<close> (lines 324-388): the session of a newly attached module.\<close>

definition amzn_sfp_probe :: "u16 \<Rightarrow> int \<Rightarrow> amzn_sfp_softc" where
  "amzn_sfp_probe addr driver_data =
     \<lparr>attr_size =
        (if driver_data = AMZN_SFP_TYPE_SFP_PLUS then 2 * AMZN_SFP_FULL_SIZE
         else if is_qsfp driver_data then 257 * AMZN_SFP_HALF_SIZE
         else AMZN_SFP_FULL_SIZE),
      client_addr = addr,
      sfp_type = driver_data,
      cur_page = - 1,
      cur_page_ts = 0\<rparr>"

section \<open>A Linux kernel and a quiet bus, to run the model on\<close>

text \<open>
  The kernel's own \<^verbatim>\<open>time_in_range\<close> (\<^verbatim>\<open>include/linux/jiffies.h\<close>: \<^verbatim>\<open>a\<close> is neither
  before \<^verbatim>\<open>b\<close> nor after \<^verbatim>\<open>c\<close>, compared through the sign of the wrapped difference) and
  \<^verbatim>\<open>msecs_to_jiffies\<close> for a tick rate that divides 1000 (a negative argument gives
  \<^verbatim>\<open>MAX_JIFFY_OFFSET\<close>). The theorems below hold for every kernel; these values serve
  where the model is run on a concrete input.
\<close>

definition linux_time_in_range :: "u64 \<Rightarrow> u64 \<Rightarrow> u64 \<Rightarrow> bool" where
  "linux_time_in_range a b c \<longleftrightarrow> 0 \<le> sint (a - b) \<and> 0 \<le> sint (c - a)"

definition linux_msecs_to_jiffies :: "cint \<Rightarrow> cint \<Rightarrow> u64" where
  "linux_msecs_to_jiffies hz m =
     (if sint m < 0 then 4611686018427387902
      else ucast ((m + (1000 div hz) - 1) div (1000 div hz)))"

definition linux :: "cint \<Rightarrow> bool \<Rightarrow> kernel" where
  "linux hz sgn_char =
     \<lparr>HZ = hz, time_in_range = linux_time_in_range,
      msecs_to_jiffies = linux_msecs_to_jiffies hz, char_signed = sgn_char\<rparr>"

definition quiet_env :: env where
  "quiet_env = \<lparr>j_check = 1000, j_verified = 1000, j_selected = 1000, j_settle = 1000,
     verify_ret = 2, verify_byte = 0, select_ret = 1, data_ret = 2\<rparr>"

section \<open>The clamped length as the specification words it\<close>

text \<open>
  The clamped length in the words of the specification (sections 4.1 and 4.3): the
  requested length, cut at the boundary of the module class and at the chunk size of 64.
\<close>

definition spec_clamped_len :: "int \<Rightarrow> nat \<Rightarrow> nat \<Rightarrow> nat" where
  "spec_clamped_len ty offset requested =
     min 64
       (if ty = AMZN_SFP_TYPE_SFP_PLUS then min requested (256 - offset mod 256)
        else if is_qsfp ty then
          (if offset < 128 then min requested (128 - offset)
           else min requested (256 - (offset mod 128 + 128)))
        else requested)"

section \<open>Word arithmetic on small values\<close>

lemmas rw_defs = amzn_sfp_rw_def translate_def data_phase_def data_msgs_def settle_def settle_due_def
  page_select_def page_verify_def page_write_def page_stale_def clamp_len_def desired_page_def page_reg_def
  c_div_def c_mod_def char_to_int_def amzn_sfp_probe_def is_qsfp_def
  AMZN_SFP_TYPE_SFP_PLUS_def AMZN_SFP_TYPE_QSFP_PLUS_def AMZN_SFP_TYPE_QSFP28_def AMZN_SFP_TYPE_QSFP_DD_def
  AMZN_SFP_FULL_SIZE_def AMZN_SFP_HALF_SIZE_def AMZN_QSFP_PAGE_SELECT_def I2C_M_RD_def
  linux_def linux_time_in_range_def linux_msecs_to_jiffies_def quiet_env_def default_tunables_def
  page_read_msgs_def page_write_msgs_def signed_divide_int_def signed_modulo_int_def
  word_sless_alt

lemma uint_small: "unat (w::u64) < n \<Longrightarrow> uint w < int n"
  by (simp add: nat_less_iff flip: nat_uint_eq)

lemma sint_small:
  assumes "unat (w::u64) < 2 ^ 63"
  shows "sint w = uint w"
proof -
  have "uint w < 2 ^ 63" using uint_small [OF assms] by simp
  moreover have "- (2 ^ 63) \<le> uint w" by (rule order_trans [OF _ uint_ge_0]) simp
  ultimately have "signed_take_bit 63 (uint w) = uint w"
    by (intro signed_take_bit_int_eq_self) simp_all
  then show ?thesis by (simp add: sint_uint)
qed

lemma sdiv_nonneg: "0 \<le> a \<Longrightarrow> 0 < b \<Longrightarrow> (a::int) sdiv b = a div b"
  by (auto simp: signed_divide_int_def sgn_if)

lemma smod_nonneg: "0 \<le> a \<Longrightarrow> 0 < b \<Longrightarrow> (a::int) smod b = a mod b"
  by (auto simp: signed_modulo_int_def sgn_if)

lemma uint_pos: "(b::u64) \<noteq> 0 \<Longrightarrow> 0 < uint b"
  using uint_ge_0 [of b] by (simp add: order_less_le uint_0_iff)
 
lemma c_div_small:
  assumes "unat (a::u64) < 2 ^ 63" "unat (b::u64) < 2 ^ 63" "b \<noteq> 0"
  shows "c_div a b = a div b"
proof -
  have "sint a sdiv sint b = uint a div uint b"
    using assms uint_pos [of b] by (simp add: sint_small sdiv_nonneg)
  then show ?thesis by (simp add: c_div_def uint_div [symmetric])
qed

lemma c_mod_small:
  assumes "unat (a::u64) < 2 ^ 63" "unat (b::u64) < 2 ^ 63" "b \<noteq> 0"
  shows "c_mod a b = a mod b"
proof -
  have "sint a smod sint b = uint a mod uint b"
    using assms uint_pos [of b] by (simp add: sint_small smod_nonneg)
  then show ?thesis by (simp add: c_mod_def uint_mod [symmetric])
qed

lemma sless_small: "unat (a::u64) < 2 ^ 63 \<Longrightarrow> unat (b::u64) < 2 ^ 63 \<Longrightarrow> a <s b \<longleftrightarrow> unat a < unat b"
  by (simp add: word_sless_alt sint_small word_less_def flip: word_less_nat_alt)

lemma unat_ucast_u8: "unat (w::u64) < 256 \<Longrightarrow> unat (ucast w :: u8) = unat w"
  by (simp add: unsigned_ucast_eq take_bit_nat_eq_self)

lemma unat_ucast_up: "unat (ucast (r::u8) :: u64) = unat r"
proof -
  have "unat r < 2 ^ 8" using unsigned_less [of r] by simp
  then have "unat r < 2 ^ 64" by simp
  then show ?thesis by (simp add: unsigned_ucast_eq take_bit_nat_eq_self)
qed

lemma unat_plus_small: "unat (a::u64) + unat (b::u64) < 2 ^ 64 \<Longrightarrow> unat (a + b) = unat a + unat b"
  using unat_add_lem [of a b] by simp

lemma clamp_len_unat:
  assumes "unat len + unat reg < 2 ^ 64" "unat reg \<le> unat limit"
  shows "unat (clamp_len len reg limit) = min (unat len) (unat limit - unat reg)"
proof -
  have s: "unat (len + ucast reg) = unat len + unat reg"
    using assms(1) by (simp add: unat_plus_small unat_ucast_up)
  have d: "unat (limit - ucast reg) = unat limit - unat reg"
    using assms(2) by (simp add: unat_sub word_le_nat_alt unat_ucast_up)
  show ?thesis
    using assms(2) by (auto simp: clamp_len_def word_less_nat_alt s d min_def)
qed

text \<open>The three argument checks pass on a request that is valid as the numbers are.\<close>

lemma checks_pass:
  assumes "unat (attr_size sc) < 2 ^ 63" "unat ofs < unat (attr_size sc)"
    "0 < unat len" "unat ofs + unat len \<le> unat (attr_size sc)"
  shows "amzn_sfp_rw k t e sc buf ofs len flags =
     (case translate k t e sc ofs len of
           (Inl err, sc1, ev) \<Rightarrow> (Inl (Errno err), sc1, ev)
         | (Inr (addr, reg, len1), sc1, ev) \<Rightarrow>
             (case data_phase k t e sc1 addr reg buf len1 flags of
                (r, ev2) \<Rightarrow> (r, sc1, ev @ ev2)))"
proof -
  have "unat ofs < 2 ^ 63" using assms by linarith
  then have a: "\<not> ofs <s 0" by (simp add: word_sless_alt sint_small)
  have b: "\<not> attr_size sc \<le> ofs" using assms(2) by (simp add: word_le_nat_alt)
  have c: "len \<noteq> 0" using assms(3) by auto
  have "unat (ofs + len) = unat ofs + unat len"
    using assms by (intro unat_plus_small) simp
  then have d: "\<not> attr_size sc < ofs + len"
    using assms(4) by (simp add: word_less_nat_alt)
  show ?thesis using a b c d by (simp add: amzn_sfp_rw_def)
qed

section \<open>The argument checks\<close>

text \<open>
  C7 (as amended). The checks are made in this order, each before any bus access and
  leaving the session as it was: an offset that is negative or not below the exposed size
  fails with \<^verbatim>\<open>ESPIPE\<close>; otherwise a length of zero fails with \<^verbatim>\<open>EINVAL\<close>;
  otherwise a request whose end \<open>offset + length\<close> lies beyond the exposed size fails with
  \<^verbatim>\<open>ENOSPC\<close>, as long as that sum fits 64 bits.
\<close>

theorem request_shape_errors:
  "(ofs <s 0 \<or> attr_size sc \<le> ofs \<longrightarrow>
      amzn_sfp_rw k t e sc buf ofs len flags = (Inl ESPIPE, sc, [])) \<and>
   (\<not> ofs <s 0 \<and> ofs < attr_size sc \<and> len = 0 \<longrightarrow>
      amzn_sfp_rw k t e sc buf ofs len flags = (Inl EINVAL, sc, [])) \<and>
   (\<not> ofs <s 0 \<and> ofs < attr_size sc \<and> len \<noteq> 0 \<and> unat ofs + unat len < 2 ^ 64 \<and>
    unat (attr_size sc) < unat ofs + unat len \<longrightarrow>
      amzn_sfp_rw k t e sc buf ofs len flags = (Inl ENOSPC, sc, []))"
  by (auto simp: amzn_sfp_rw_def word_less_nat_alt word_le_nat_alt unat_plus_small)

theorem request_shape_errors_witness:
  "amzn_sfp_rw (linux 1000 True) default_tunables quiet_env
     (amzn_sfp_probe 80 AMZN_SFP_TYPE_SFP_PLUS) [] 512 1 I2C_M_RD
     = (Inl ESPIPE, amzn_sfp_probe 80 AMZN_SFP_TYPE_SFP_PLUS, []) \<and>
   amzn_sfp_rw (linux 1000 True) default_tunables quiet_env
     (amzn_sfp_probe 80 AMZN_SFP_TYPE_SFP_PLUS) [] 0 0 I2C_M_RD
     = (Inl EINVAL, amzn_sfp_probe 80 AMZN_SFP_TYPE_SFP_PLUS, []) \<and>
   amzn_sfp_rw (linux 1000 True) default_tunables quiet_env
     (amzn_sfp_probe 80 AMZN_SFP_TYPE_SFP_PLUS) [] 500 20 I2C_M_RD
     = (Inl ENOSPC, amzn_sfp_probe 80 AMZN_SFP_TYPE_SFP_PLUS, [])"
  using
    request_shape_errors [of 512 "amzn_sfp_probe 80 AMZN_SFP_TYPE_SFP_PLUS" "linux 1000 True"
      default_tunables quiet_env "[]" 1 I2C_M_RD]
    request_shape_errors [of 0 "amzn_sfp_probe 80 AMZN_SFP_TYPE_SFP_PLUS" "linux 1000 True"
      default_tunables quiet_env "[]" 0 I2C_M_RD]
    request_shape_errors [of 500 "amzn_sfp_probe 80 AMZN_SFP_TYPE_SFP_PLUS" "linux 1000 True"
      default_tunables quiet_env "[]" 20 I2C_M_RD]
  by (simp add: amzn_sfp_probe_def AMZN_SFP_TYPE_SFP_PLUS_def AMZN_SFP_FULL_SIZE_def word_sless_alt)

theorem request_shape_errors_counterexample:
  "amzn_sfp_rw (linux 1000 True) default_tunables quiet_env
     (amzn_sfp_probe 80 AMZN_SFP_TYPE_SFP_PLUS) [] 512 0 I2C_M_RD
     = (Inl ESPIPE, amzn_sfp_probe 80 AMZN_SFP_TYPE_SFP_PLUS, []) \<and>
   unat (255 :: u64) + unat (18446744073709551361 :: u64) > 512 \<and>
   fst (amzn_sfp_rw (linux 1000 True) default_tunables quiet_env
     (amzn_sfp_probe 80 AMZN_SFP_TYPE_SFP_PLUS) [] 255 18446744073709551361 I2C_M_RD)
     = Inr 64"
  by (simp add: rw_defs)

section \<open>The address translation, class by class\<close>

lemma unat_chunk: "unat (if 64 < (n::u64) then 64 else n) = min (unat n) 64"
  by (auto simp: word_less_nat_alt min_def)

lemma settle_no_transfer: "filter is_transfer (settle k t e sc) = []"
  by (simp add: settle_def Let_def)

lemma settle_no_page_select: "x \<in> set (settle k t e sc) \<Longrightarrow> \<not> is_page_select x"
  by (auto simp: settle_def Let_def split: if_splits)

lemma data_phase_events:
  "snd (data_phase k t e sc addr reg buf n flags) =
     settle k t e sc @ [I2C_transfer DataPhase (data_msgs addr reg buf (if 64 < n then 64 else n) flags)]"
  by (simp add: data_phase_def Let_def)

lemma data_phase_result:
  "fst (data_phase k t e sc addr reg buf n flags) = Inr m \<Longrightarrow> m = (if 64 < n then 64 else n)"
  by (simp add: data_phase_def Let_def split: if_splits)

lemma translate_sfp_plus:
  assumes "sfp_type sc = AMZN_SFP_TYPE_SFP_PLUS" "unat ofs < 512" "unat ofs + unat len \<le> 512"
  shows "\<exists>a reg n. translate k t e sc ofs len = (Inr (client_addr sc + a, reg, n), sc, []) \<and>
     unat a = unat ofs div 256 \<and> unat reg = unat ofs mod 256 \<and>
     unat n = min (unat len) (256 - unat ofs mod 256)"
proof -
  define a where "a = (ucast (c_div ofs AMZN_SFP_FULL_SIZE) :: u16)"
  define reg where "reg = (ucast (c_mod ofs AMZN_SFP_FULL_SIZE) :: u8)"
  have small: "unat ofs < 2 ^ 63" using assms(2) by simp
  have d: "c_div ofs AMZN_SFP_FULL_SIZE = ofs div 256"
    using small by (simp add: c_div_small AMZN_SFP_FULL_SIZE_def)
  have m: "c_mod ofs AMZN_SFP_FULL_SIZE = ofs mod 256"
    using small by (simp add: c_mod_small AMZN_SFP_FULL_SIZE_def)
  have ud: "unat (ofs div 256) = unat ofs div 256" by (simp add: unat_div)
  have um: "unat (ofs mod 256) = unat ofs mod 256" by (simp add: unat_mod)
  have a: "unat a = unat ofs div 256"
    using assms(2) by (simp add: a_def d unsigned_ucast_eq take_bit_nat_eq_self ud)
  have r: "unat reg = unat ofs mod 256"
    by (simp add: reg_def m unat_ucast_u8 um)
  have n: "unat (clamp_len len reg AMZN_SFP_FULL_SIZE) = min (unat len) (256 - unat ofs mod 256)"
    using assms(3) by (subst clamp_len_unat) (simp_all add: r AMZN_SFP_FULL_SIZE_def)
  have "translate k t e sc ofs len =
      (Inr (client_addr sc + a, reg, clamp_len len reg AMZN_SFP_FULL_SIZE), sc, [])"
    using assms(1) by (simp add: translate_def Let_def a_def reg_def)
  with a r n show ?thesis by blast
qed

lemma qsfp_not_sfp_plus: "is_qsfp ty \<Longrightarrow> ty \<noteq> AMZN_SFP_TYPE_SFP_PLUS"
  by (auto simp: is_qsfp_def AMZN_SFP_TYPE_SFP_PLUS_def AMZN_SFP_TYPE_QSFP_PLUS_def
      AMZN_SFP_TYPE_QSFP28_def AMZN_SFP_TYPE_QSFP_DD_def)

lemma translate_qsfp_lower:
  assumes "is_qsfp (sfp_type sc)" "unat ofs < 128" "unat ofs + unat len < 2 ^ 63"
  shows "\<exists>n. translate k t e sc ofs len = (Inr (client_addr sc, ucast ofs, n), sc, []) \<and>
     unat (ucast ofs :: u8) = unat ofs \<and> unat n = min (unat len) (128 - unat ofs)"
proof -
  define reg where "reg = (ucast ofs :: u8)"
  have lt: "ofs <s AMZN_SFP_HALF_SIZE"
    using assms(2) by (simp add: sless_small AMZN_SFP_HALF_SIZE_def)
  have r: "unat reg = unat ofs"
    using assms(2) by (simp add: reg_def unat_ucast_u8)
  have n: "unat (clamp_len len reg AMZN_SFP_HALF_SIZE) = min (unat len) (128 - unat ofs)"
    using assms(2,3) by (subst clamp_len_unat) (simp_all add: r AMZN_SFP_HALF_SIZE_def)
  have "translate k t e sc ofs len =
      (Inr (client_addr sc, reg, clamp_len len reg AMZN_SFP_HALF_SIZE), sc, [])"
    using assms(1) lt qsfp_not_sfp_plus [OF assms(1)]
    by (simp add: translate_def Let_def reg_def)
  with r n show ?thesis unfolding reg_def by blast
qed

lemma unat_page_reg:
  assumes "unat ofs < 2 ^ 63"
  shows "unat (page_reg ofs) = unat ofs mod 128 + 128"
proof -
  have m: "c_mod ofs 128 = ofs mod 128"
    using assms by (simp add: c_mod_small)
  have um: "unat (ofs mod 128) = unat ofs mod 128" by (simp add: unat_mod)
  have "unat (ofs mod 128 + 128) = unat (ofs mod 128) + unat (128 :: u64)"
    by (rule unat_plus_small) (simp add: um)
  then have "unat (ofs mod 128 + 128) = unat ofs mod 128 + 128" by (simp add: um)
  then show ?thesis
    by (simp add: page_reg_def m AMZN_SFP_HALF_SIZE_def unat_ucast_u8)
qed

lemma unat_desired_page:
  assumes "128 \<le> unat ofs" "unat ofs < 32896"
  shows "unat (desired_page ofs) = unat ofs div 128 - 1"
proof -
  have d: "c_div ofs 128 = ofs div 128"
    using assms by (simp add: c_div_small)
  have ud: "unat (ofs div 128) = unat ofs div 128" by (simp add: unat_div)
  have ge: "1 \<le> unat ofs div 128" using assms(1) by (simp add: Suc_le_eq div_greater_zero_iff)
  have "1 \<le> ofs div 128" using ge by (simp add: word_le_nat_alt ud)
  then have "unat (ofs div 128 - 1) = unat (ofs div 128) - unat (1 :: u64)"
    by (rule unat_sub)
  then have s: "unat (ofs div 128 - 1) = unat ofs div 128 - 1" by (simp add: ud)
  have "unat ofs div 128 < 257" using assms(2) by (intro less_mult_imp_div_less) simp
  then have "unat (ofs div 128 - 1) < 256" using ge unfolding s by arith
  then show ?thesis by (simp add: desired_page_def AMZN_SFP_HALF_SIZE_def d unat_ucast_u8 s)
qed

lemma translate_qsfp_upper:
  assumes "is_qsfp (sfp_type sc)" "128 \<le> unat ofs" "unat ofs < 2 ^ 63"
  shows "translate k t e sc ofs len =
     (case page_select k t e sc (client_addr sc) (desired_page ofs) of
        (Some err, sc1, ev) \<Rightarrow> (Inl err, sc1, ev)
      | (None, sc1, ev) \<Rightarrow>
          (Inr (client_addr sc, page_reg ofs, clamp_len len (page_reg ofs) AMZN_SFP_FULL_SIZE),
           sc1, ev))"
proof -
  have "\<not> ofs <s AMZN_SFP_HALF_SIZE"
    using assms(2,3) by (simp add: sless_small AMZN_SFP_HALF_SIZE_def)
  then show ?thesis
    using assms(1) qsfp_not_sfp_plus [OF assms(1)] by (simp add: translate_def Let_def)
qed

lemma unat_page_clamp:
  assumes "unat ofs < 2 ^ 63" "unat len < 2 ^ 63"
  shows "unat (clamp_len len (page_reg ofs) AMZN_SFP_FULL_SIZE)
     = min (unat len) (256 - unat (page_reg ofs))"
  using assms by (subst clamp_len_unat) (simp_all add: unat_page_reg AMZN_SFP_FULL_SIZE_def)

lemma translate_unknown:
  assumes "sfp_type sc \<noteq> AMZN_SFP_TYPE_SFP_PLUS" "\<not> is_qsfp (sfp_type sc)"
  shows "translate k t e sc ofs len = (Inr (client_addr sc, ucast ofs, len), sc, [])"
  using assms by (simp add: translate_def)

lemma rw_data:
  assumes "unat (attr_size sc) < 2 ^ 63" "unat ofs < unat (attr_size sc)"
    "0 < unat len" "unat ofs + unat len \<le> unat (attr_size sc)"
    "translate k t e sc ofs len = (Inr (addr, reg, n), sc1, evp)"
  shows "amzn_sfp_rw k t e sc buf ofs len flags =
     (fst (data_phase k t e sc1 addr reg buf n flags), sc1,
      evp @ settle k t e sc1 @
        [I2C_transfer DataPhase (data_msgs addr reg buf (if 64 < n then 64 else n) flags)])"
  using assms(5) data_phase_events [of k t e sc1 addr reg buf n flags]
  by (cases "data_phase k t e sc1 addr reg buf n flags") (simp add: checks_pass [OF assms(1-4)])

lemma rw_error:
  assumes "unat (attr_size sc) < 2 ^ 63" "unat ofs < unat (attr_size sc)"
    "0 < unat len" "unat ofs + unat len \<le> unat (attr_size sc)"
    "translate k t e sc ofs len = (Inl err, sc1, evp)"
  shows "amzn_sfp_rw k t e sc buf ofs len flags = (Inl (Errno err), sc1, evp)"
  using assms(5) by (simp add: checks_pass [OF assms(1-4)])

section \<open>SFP+ sessions\<close>

text \<open>
  C8. For every valid offset and length within the 512 bytes of an SFP+ session, the one
  transfer of the access is the data phase at bus address \<open>base + offset div 256\<close> and
  register \<open>offset mod 256\<close>, with a length of at most \<open>256 - offset mod 256\<close>: it ends
  at or before the 256-byte boundary between the two address spaces. The session is left
  as it was.
\<close>

theorem sfp_plus_translation:
  assumes "sfp_type sc = AMZN_SFP_TYPE_SFP_PLUS" "attr_size sc = 512"
    "unat ofs < 512" "0 < unat len" "unat ofs + unat len \<le> 512"
  shows "\<exists>a reg n r.
     amzn_sfp_rw k t e sc buf ofs len flags =
       (r, sc, settle k t e sc @
          [I2C_transfer DataPhase (data_msgs (client_addr sc + a) reg buf n flags)]) \<and>
     unat a = unat ofs div 256 \<and> unat reg = unat ofs mod 256 \<and>
     unat n \<le> 256 - unat ofs mod 256 \<and> unat reg + unat n \<le> 256"
proof -
  obtain a reg n where
    tr: "translate k t e sc ofs len = (Inr (client_addr sc + a, reg, n), sc, [])"
    and a: "unat a = unat ofs div 256" and r: "unat reg = unat ofs mod 256"
    and n: "unat n = min (unat len) (256 - unat ofs mod 256)"
    using translate_sfp_plus [OF assms(1,3,5)] by blast
  let ?m = "if 64 < n then 64 else n"
  have m: "unat ?m = min (unat n) 64" by (rule unat_chunk)
  have "amzn_sfp_rw k t e sc buf ofs len flags =
     (fst (data_phase k t e sc (client_addr sc + a) reg buf n flags), sc,
      [] @ settle k t e sc @
        [I2C_transfer DataPhase (data_msgs (client_addr sc + a) reg buf ?m flags)])"
    using assms(2-5) by (intro rw_data [OF _ _ _ _ tr]) simp_all
  moreover have "unat ?m \<le> 256 - unat ofs mod 256" unfolding m n by simp
  moreover have "unat reg + unat ?m \<le> 256" unfolding m n r by simp
  ultimately show ?thesis using a r by (intro exI [of _ a] exI [of _ reg] exI [of _ ?m]) simp
qed

theorem sfp_plus_translation_witness:
  "\<exists>a reg n r.
     amzn_sfp_rw (linux 1000 True) default_tunables quiet_env
         (amzn_sfp_probe 80 AMZN_SFP_TYPE_SFP_PLUS) [1, 2, 3, 4, 5, 6, 7, 8, 9, 10] 300 10 0 =
       (r, amzn_sfp_probe 80 AMZN_SFP_TYPE_SFP_PLUS,
        settle (linux 1000 True) default_tunables quiet_env
            (amzn_sfp_probe 80 AMZN_SFP_TYPE_SFP_PLUS) @
          [I2C_transfer DataPhase
             (data_msgs (client_addr (amzn_sfp_probe 80 AMZN_SFP_TYPE_SFP_PLUS) + a) reg
                [1, 2, 3, 4, 5, 6, 7, 8, 9, 10] n 0)]) \<and>
     unat a = unat (300 :: u64) div 256 \<and> unat reg = unat (300 :: u64) mod 256 \<and>
     unat n \<le> 256 - unat (300 :: u64) mod 256 \<and> unat reg + unat n \<le> 256"
  by (rule sfp_plus_translation)
    (simp_all add: amzn_sfp_probe_def AMZN_SFP_FULL_SIZE_def)

section \<open>Sessions without paging\<close>

text \<open>
  C10. On a session that is not of the QSFP family (SFP+ or unknown), every read or write
  leaves the whole session, and so the believed page and its timestamp, unchanged, issues
  no page-select read or write, and puts at most one transfer on the bus, the data phase.
\<close>

theorem unpaged_session_untouched:
  assumes "\<not> is_qsfp (sfp_type sc)"
    and "amzn_sfp_rw k t e sc buf ofs len flags = (r, sc', ev)"
  shows "sc' = sc \<and> (\<forall>x \<in> set ev. \<not> is_page_select x) \<and>
     (ev = [] \<or> (\<exists>ms. filter is_transfer ev = [I2C_transfer DataPhase ms]))"
proof -
  have "\<exists>addr reg n. translate k t e sc ofs len = (Inr (addr, reg, n), sc, [])"
    using assms(1) by (simp add: translate_def Let_def)
  then obtain addr reg n where tr: "translate k t e sc ofs len = (Inr (addr, reg, n), sc, [])"
    by blast
  obtain rd evd where dp: "data_phase k t e sc addr reg buf n flags = (rd, evd)"
    by (cases "data_phase k t e sc addr reg buf n flags")
  have evd: "evd = settle k t e sc @
      [I2C_transfer DataPhase (data_msgs addr reg buf (if 64 < n then 64 else n) flags)]"
    using data_phase_events [of k t e sc addr reg buf n flags] dp by simp
  have "(sc' = sc \<and> ev = []) \<or> (sc' = sc \<and> ev = evd)"
    using assms(2) tr dp by (auto simp: amzn_sfp_rw_def split: if_splits)
  then show ?thesis
    by (auto simp: evd settle_no_transfer dest: settle_no_page_select)
qed

theorem unpaged_session_untouched_witness:
  "amzn_sfp_rw (linux 1000 True) default_tunables quiet_env (amzn_sfp_probe 80 0)
       [] 10 200 I2C_M_RD =
     (Inr 64, amzn_sfp_probe 80 0,
      [I2C_transfer DataPhase
         [\<lparr>msg_addr = 80, msg_flags = 0, msg_len = 1, msg_buf = [10]\<rparr>,
          \<lparr>msg_addr = 80, msg_flags = 1, msg_len = 64, msg_buf = []\<rparr>]]) \<and>
   fst (snd (amzn_sfp_rw (linux 1000 True) default_tunables quiet_env (amzn_sfp_probe 80 0)
       [] 10 200 I2C_M_RD)) = amzn_sfp_probe 80 0"
  using unpaged_session_untouched [of "amzn_sfp_probe 80 0" "linux 1000 True"
      default_tunables quiet_env "[]" 10 200 I2C_M_RD "Inr 64" "amzn_sfp_probe 80 0"
      "[I2C_transfer DataPhase
         [\<lparr>msg_addr = 80, msg_flags = 0, msg_len = 1, msg_buf = [10]\<rparr>,
          \<lparr>msg_addr = 80, msg_flags = 1, msg_len = 64, msg_buf = []\<rparr>]]"]
  by (simp add: rw_defs)

section \<open>QSFP sessions: the two halves\<close>

text \<open>
  C2. For every valid request on a QSFP-family session (offset below \<open>257 * 128\<close>): below
  offset 128 the register is the offset, the length is at most \<open>128 - offset\<close>, and the
  access issues no page-select read or write; from offset 128 on the desired page is
  \<open>offset div 128 - 1\<close>, the register is \<open>offset mod 128 + 128\<close>, within 128..255, the
  page is selected through the paging step for that page, and the length of the data
  phase is at most \<open>256 - register\<close>. So one transfer stays within its half and page.
\<close>

theorem qsfp_translation:
  assumes "is_qsfp (sfp_type sc)" "attr_size sc = 32896"
    "unat ofs < 32896" "0 < unat len" "unat ofs + unat len \<le> 32896"
  shows
    "(unat ofs < 128 \<longrightarrow>
       (\<exists>n r. amzn_sfp_rw k t e sc buf ofs len flags =
           (r, sc, settle k t e sc @
              [I2C_transfer DataPhase (data_msgs (client_addr sc) (ucast ofs) buf n flags)]) \<and>
          unat (ucast ofs :: u8) = unat ofs \<and> unat n \<le> 128 - unat ofs) \<and>
       (\<forall>x \<in> set (snd (snd (amzn_sfp_rw k t e sc buf ofs len flags))). \<not> is_page_select x)) \<and>
     (128 \<le> unat ofs \<longrightarrow>
       unat (desired_page ofs) = unat ofs div 128 - 1 \<and>
       unat (page_reg ofs) = unat ofs mod 128 + 128 \<and>
       128 \<le> unat (page_reg ofs) \<and> unat (page_reg ofs) < 256 \<and>
       (\<exists>sc1 evp.
          (\<exists>err. page_select k t e sc (client_addr sc) (desired_page ofs) = (Some err, sc1, evp) \<and>
             amzn_sfp_rw k t e sc buf ofs len flags = (Inl (Errno err), sc1, evp)) \<or>
          (\<exists>n r. page_select k t e sc (client_addr sc) (desired_page ofs) = (None, sc1, evp) \<and>
             amzn_sfp_rw k t e sc buf ofs len flags =
               (r, sc1, evp @ settle k t e sc1 @
                  [I2C_transfer DataPhase
                     (data_msgs (client_addr sc) (page_reg ofs) buf n flags)]) \<and>
             unat n \<le> 256 - unat (page_reg ofs))))"
proof (intro conjI impI)
  assume lo: "unat ofs < 128"
  obtain n where tr: "translate k t e sc ofs len = (Inr (client_addr sc, ucast ofs, n), sc, [])"
    and r: "unat (ucast ofs :: u8) = unat ofs"
    and n: "unat n = min (unat len) (128 - unat ofs)"
    using translate_qsfp_lower [OF assms(1) lo, of len k t e] assms(5) by auto
  let ?m = "if 64 < n then 64 else n"
  have rw: "amzn_sfp_rw k t e sc buf ofs len flags =
     (fst (data_phase k t e sc (client_addr sc) (ucast ofs) buf n flags), sc,
      [] @ settle k t e sc @
        [I2C_transfer DataPhase (data_msgs (client_addr sc) (ucast ofs) buf ?m flags)])"
    using assms(2-5) by (intro rw_data [OF _ _ _ _ tr]) simp_all
  have "unat ?m \<le> 128 - unat ofs" unfolding unat_chunk n by simp
  with rw r show "\<exists>n r. amzn_sfp_rw k t e sc buf ofs len flags =
           (r, sc, settle k t e sc @
              [I2C_transfer DataPhase (data_msgs (client_addr sc) (ucast ofs) buf n flags)]) \<and>
          unat (ucast ofs :: u8) = unat ofs \<and> unat n \<le> 128 - unat ofs"
    by (intro exI [of _ ?m]) simp
  show "\<forall>x \<in> set (snd (snd (amzn_sfp_rw k t e sc buf ofs len flags))). \<not> is_page_select x"
    by (auto simp: rw dest: settle_no_page_select)
next
  assume hi: "128 \<le> unat ofs"
  have small: "unat ofs < 2 ^ 63" "unat len < 2 ^ 63" using assms(3,5) by simp_all
  show "unat (desired_page ofs) = unat ofs div 128 - 1"
    by (rule unat_desired_page [OF hi assms(3)])
  show pr: "unat (page_reg ofs) = unat ofs mod 128 + 128"
    by (rule unat_page_reg [OF small(1)])
  show "128 \<le> unat (page_reg ofs)" "unat (page_reg ofs) < 256" by (simp_all add: pr)
  let ?n = "clamp_len len (page_reg ofs) AMZN_SFP_FULL_SIZE"
  let ?m = "if 64 < ?n then 64 else ?n"
  have m: "unat ?m \<le> 256 - unat (page_reg ofs)"
    unfolding unat_chunk unat_page_clamp [OF small] by simp
  have tr: "translate k t e sc ofs len =
     (case page_select k t e sc (client_addr sc) (desired_page ofs) of
        (Some err, sc1, ev) \<Rightarrow> (Inl err, sc1, ev)
      | (None, sc1, ev) \<Rightarrow> (Inr (client_addr sc, page_reg ofs, ?n), sc1, ev))"
    by (rule translate_qsfp_upper [OF assms(1) hi small(1)])
  obtain ps sc1 evp where ps:
    "page_select k t e sc (client_addr sc) (desired_page ofs) = (ps, sc1, evp)"
    by (cases "page_select k t e sc (client_addr sc) (desired_page ofs)")
  show "\<exists>sc1 evp.
          (\<exists>err. page_select k t e sc (client_addr sc) (desired_page ofs) = (Some err, sc1, evp) \<and>
             amzn_sfp_rw k t e sc buf ofs len flags = (Inl (Errno err), sc1, evp)) \<or>
          (\<exists>n r. page_select k t e sc (client_addr sc) (desired_page ofs) = (None, sc1, evp) \<and>
             amzn_sfp_rw k t e sc buf ofs len flags =
               (r, sc1, evp @ settle k t e sc1 @
                  [I2C_transfer DataPhase
                     (data_msgs (client_addr sc) (page_reg ofs) buf n flags)]) \<and>
             unat n \<le> 256 - unat (page_reg ofs))"
  proof (cases ps)
    case (Some err)
    have "translate k t e sc ofs len = (Inl err, sc1, evp)" using tr ps Some by simp
    then have "amzn_sfp_rw k t e sc buf ofs len flags = (Inl (Errno err), sc1, evp)"
      using assms(2-5) by (intro rw_error) simp_all
    with ps Some show ?thesis by blast
  next
    case None
    have "translate k t e sc ofs len = (Inr (client_addr sc, page_reg ofs, ?n), sc1, evp)"
      using tr ps None by simp
    then have "amzn_sfp_rw k t e sc buf ofs len flags =
       (fst (data_phase k t e sc1 (client_addr sc) (page_reg ofs) buf ?n flags), sc1,
        evp @ settle k t e sc1 @
          [I2C_transfer DataPhase (data_msgs (client_addr sc) (page_reg ofs) buf ?m flags)])"
      using assms(2-5) by (intro rw_data) simp_all
    with ps None m show ?thesis by blast
  qed
qed

theorem qsfp_translation_witness:
  "amzn_sfp_rw (linux 1000 True) default_tunables quiet_env
       (amzn_sfp_probe 80 AMZN_SFP_TYPE_QSFP28) [] 100 50 I2C_M_RD =
     (Inr 28, amzn_sfp_probe 80 AMZN_SFP_TYPE_QSFP28,
      [I2C_transfer DataPhase
         [\<lparr>msg_addr = 80, msg_flags = 0, msg_len = 1, msg_buf = [100]\<rparr>,
          \<lparr>msg_addr = 80, msg_flags = 1, msg_len = 28, msg_buf = []\<rparr>]]) \<and>
   amzn_sfp_rw (linux 1000 True) default_tunables quiet_env
       (amzn_sfp_probe 80 AMZN_SFP_TYPE_QSFP28) [] 200 50 I2C_M_RD =
     (Inr 50, (amzn_sfp_probe 80 AMZN_SFP_TYPE_QSFP28)\<lparr>cur_page := 0, cur_page_ts := 1000\<rparr>,
      [I2C_transfer PageSelectRead (page_read_msgs 80),
       Usleep_range 4000 5000,
       I2C_transfer DataPhase
         [\<lparr>msg_addr = 80, msg_flags = 0, msg_len = 1, msg_buf = [200]\<rparr>,
          \<lparr>msg_addr = 80, msg_flags = 1, msg_len = 50, msg_buf = []\<rparr>]]) \<and>
   unat (desired_page 200) = unat (200 :: u64) div 128 - 1 \<and>
   unat (page_reg 200) = unat (200 :: u64) mod 128 + 128"
  using
    qsfp_translation [of "amzn_sfp_probe 80 AMZN_SFP_TYPE_QSFP28" 100 50 "linux 1000 True"
      default_tunables quiet_env "[]" I2C_M_RD]
    qsfp_translation [of "amzn_sfp_probe 80 AMZN_SFP_TYPE_QSFP28" 200 50 "linux 1000 True"
      default_tunables quiet_env "[]" I2C_M_RD]
  by (simp add: rw_defs)

section \<open>The byte count\<close>

text \<open>
  C9. For every valid request that succeeds, on a session with the exposed size of its
  class, the byte count returned is the length of the data-phase transfer; it is the
  requested length cut at the boundary of the class and at 64, so it exceeds neither the
  requested length nor the chunk size nor the boundary.
\<close>

theorem returned_count_is_clamped_length:
  assumes "attr_size sc = attr_size (amzn_sfp_probe (client_addr sc) (sfp_type sc))"
    and "unat ofs < unat (attr_size sc)" and "0 < unat len"
    and "unat ofs + unat len \<le> unat (attr_size sc)"
    and "amzn_sfp_rw k t e sc buf ofs len flags = (Inr n, sc', ev)"
  shows "unat n = spec_clamped_len (sfp_type sc) (unat ofs) (unat len) \<and>
     unat n \<le> unat len \<and> unat n \<le> 64 \<and>
     (\<exists>pre addr reg. ev = pre @ [I2C_transfer DataPhase (data_msgs addr reg buf n flags)])"
proof -
  have size: "unat (attr_size sc) \<le> 32896"
    by (simp add: assms(1) amzn_sfp_probe_def AMZN_SFP_FULL_SIZE_def AMZN_SFP_HALF_SIZE_def)
  then have size63: "unat (attr_size sc) < 2 ^ 63" by simp
  have small: "unat ofs < 2 ^ 63" "unat len < 2 ^ 63" "unat ofs + unat len < 2 ^ 63"
    using size assms(2,4) by simp_all
  obtain res sc1 evp where tr: "translate k t e sc ofs len = (res, sc1, evp)"
    by (cases "translate k t e sc ofs len")
  have "\<exists>addr reg m. res = Inr (addr, reg, m)"
  proof (cases res)
    case (Inl err)
    then have "amzn_sfp_rw k t e sc buf ofs len flags = (Inl (Errno err), sc1, evp)"
      using tr by (intro rw_error [OF size63 assms(2-4)]) simp
    with assms(5) show ?thesis by simp
  next
    case (Inr x)
    then show ?thesis by (cases x) auto
  qed
  then obtain addr reg m where res: "res = Inr (addr, reg, m)" by blast
  let ?c = "if 64 < m then 64 else m"
  have rw: "amzn_sfp_rw k t e sc buf ofs len flags =
     (fst (data_phase k t e sc1 addr reg buf m flags), sc1,
      evp @ settle k t e sc1 @ [I2C_transfer DataPhase (data_msgs addr reg buf ?c flags)])"
    using tr res by (intro rw_data [OF size63 assms(2-4)]) simp
  have n: "n = ?c" and ev: "ev = (evp @ settle k t e sc1) @
      [I2C_transfer DataPhase (data_msgs addr reg buf n flags)]"
    using assms(5) rw data_phase_result [of k t e sc1 addr reg buf m flags n] by auto
  have un: "unat n = min (unat m) 64" unfolding n by (rule unat_chunk)
  have m: "unat m =
     (if sfp_type sc = AMZN_SFP_TYPE_SFP_PLUS then min (unat len) (256 - unat ofs mod 256)
      else if is_qsfp (sfp_type sc) then
        (if unat ofs < 128 then min (unat len) (128 - unat ofs)
         else min (unat len) (256 - (unat ofs mod 128 + 128)))
      else unat len)"
  proof (cases "sfp_type sc = AMZN_SFP_TYPE_SFP_PLUS")
    case True
    have "attr_size sc = 512"
      using True by (simp add: assms(1) amzn_sfp_probe_def AMZN_SFP_FULL_SIZE_def)
    then show ?thesis
      using translate_sfp_plus [OF True, of ofs len k t e] assms(2,4) tr res True by auto
  next
    case notplus: False
    show ?thesis
    proof (cases "is_qsfp (sfp_type sc)")
      case q: True
      show ?thesis
      proof (cases "unat ofs < 128")
        case True
        then show ?thesis
          using translate_qsfp_lower [OF q True small(3), of k t e] tr res q notplus by auto
      next
        case False
        then have hi: "128 \<le> unat ofs" by simp
        have "m = clamp_len len (page_reg ofs) AMZN_SFP_FULL_SIZE"
          using translate_qsfp_upper [OF q hi small(1), of k t e len] tr res
          by (auto split: prod.splits option.splits)
        then show ?thesis
          using unat_page_clamp [OF small(1,2)] unat_page_reg [OF small(1)] q notplus False
          by simp
      qed
    next
      case False
      then show ?thesis
        using translate_unknown [OF notplus False, of k t e ofs len] tr res notplus by simp
    qed
  qed
  have "unat n = spec_clamped_len (sfp_type sc) (unat ofs) (unat len)"
    unfolding un m spec_clamped_len_def by (simp add: min.commute)
  moreover have "unat m \<le> unat len" unfolding m by simp
  then have "unat n \<le> unat len" unfolding un by simp
  moreover have "unat n \<le> 64" unfolding un by simp
  ultimately show ?thesis using ev by blast
qed

theorem returned_count_is_clamped_length_witness:
  "amzn_sfp_rw (linux 1000 True) default_tunables quiet_env
       (amzn_sfp_probe 80 AMZN_SFP_TYPE_SFP_PLUS) [] 250 100 I2C_M_RD =
     (Inr 6, amzn_sfp_probe 80 AMZN_SFP_TYPE_SFP_PLUS,
      [I2C_transfer DataPhase (data_msgs 80 250 [] 6 I2C_M_RD)]) \<and>
   unat (6 :: u64) = spec_clamped_len AMZN_SFP_TYPE_SFP_PLUS (unat (250 :: u64)) (unat (100 :: u64))"
  using returned_count_is_clamped_length [of "amzn_sfp_probe 80 AMZN_SFP_TYPE_SFP_PLUS"
      250 100 "linux 1000 True" default_tunables quiet_env "[]" I2C_M_RD 6
      "amzn_sfp_probe 80 AMZN_SFP_TYPE_SFP_PLUS"
      "[I2C_transfer DataPhase (data_msgs 80 250 [] 6 I2C_M_RD)]"]
  by (simp add: rw_defs spec_clamped_len_def)

section \<open>The page cache\<close>

lemmas page_defs = page_select_def page_verify_def page_write_def

lemma page_select_events:
  "x \<in> set (snd (snd (page_select k t e sc addr p))) \<Longrightarrow> \<not> is_sleep x \<and> \<not> is_data x"
  by (auto simp: page_defs Let_def split: if_splits prod.splits option.splits)

lemma translate_events:
  "x \<in> set (snd (snd (translate k t e sc ofs len))) \<Longrightarrow> \<not> is_sleep x \<and> \<not> is_data x"
  using page_select_events [of x k t e sc "client_addr sc" "desired_page ofs"]
  by (auto simp: translate_def Let_def split: if_splits prod.splits option.splits)

lemma page_select_stale:
  "page_stale k t e sc \<Longrightarrow>
     \<exists>rest. snd (snd (page_select k t e sc addr p)) =
       I2C_transfer PageSelectRead (page_read_msgs addr) # rest"
  by (auto simp: page_defs Let_def split: if_splits prod.splits option.splits)

lemma page_select_fresh:
  "\<not> page_stale k t e sc \<Longrightarrow> x \<in> set (snd (snd (page_select k t e sc addr p))) \<Longrightarrow>
     \<not> is_page_read x"
  by (auto simp: page_defs Let_def split: if_splits prod.splits option.splits)

lemma page_select_failure:
  assumes "page_select k t e sc addr p = (ps, sc1, evp)"
  shows "((\<exists>ms. I2C_transfer PageSelectRead ms \<in> set evp) \<and> verify_ret e < 0 \<longrightarrow>
            ps = Some (verify_ret e) \<and> cur_page sc1 = - 1) \<and>
         ((\<exists>ms. I2C_transfer PageSelectWrite ms \<in> set evp) \<and> select_ret e < 0 \<longrightarrow>
            ps = Some (select_ret e) \<and> cur_page sc1 = - 1)"
  using assms
  by (auto simp: page_defs Let_def split: if_splits prod.splits option.splits)

lemma page_select_success:
  assumes "page_select k t e sc addr p = (None, sc1, evp)"
  shows "cur_page sc1 = char_to_int k p \<and>
     cur_page_ts sc1 =
       (if \<exists>x \<in> set evp. is_page_write x then j_selected e
        else if \<exists>x \<in> set evp. is_page_read x then j_verified e
        else cur_page_ts sc)"
  using assms
  by (auto simp: page_defs Let_def split: if_splits prod.splits option.splits)

lemma page_select_data_ret:
  "page_select k t (e\<lparr>data_ret := d\<rparr>) sc addr p = page_select k t e sc addr p"
  by (simp add: page_defs page_stale_def Let_def)

lemma translate_data_ret:
  "translate k t (e\<lparr>data_ret := d\<rparr>) sc ofs len = translate k t e sc ofs len"
  by (simp add: translate_def page_select_data_ret Let_def)

lemma translate_session:
  assumes "translate k t e sc ofs len = (res, sc1, evp)"
  shows "(evp = [] \<and> sc1 = sc) \<or>
     (\<exists>ps. page_select k t e sc (client_addr sc) (desired_page ofs) = (ps, sc1, evp) \<and>
        (case ps of Some err \<Rightarrow> res = Inl err | None \<Rightarrow> \<exists>x. res = Inr x))"
  using assms
  by (auto simp: translate_def Let_def split: if_splits prod.splits option.splits)

lemma rw_shape:
  assumes "amzn_sfp_rw k t e sc buf ofs len flags = (r, sc', ev)"
  shows "(sc' = sc \<and> ev = [] \<and> (r = Inl ESPIPE \<or> r = Inl EINVAL \<or> r = Inl ENOSPC)) \<or>
     (\<exists>res evp. translate k t e sc ofs len = (res, sc', evp) \<and>
        ((\<exists>err. res = Inl err \<and> r = Inl (Errno err) \<and> ev = evp) \<or>
         (\<exists>addr reg n. res = Inr (addr, reg, n) \<and>
            r = fst (data_phase k t e sc' addr reg buf n flags) \<and>
            ev = evp @ settle k t e sc' @
              [I2C_transfer DataPhase
                 (data_msgs addr reg buf (if 64 < n then 64 else n) flags)])))"
proof (cases "ofs <s 0 \<or> attr_size sc \<le> ofs \<or> len = 0 \<or> attr_size sc < ofs + len")
  case True
  then show ?thesis using assms by (auto simp: amzn_sfp_rw_def split: if_splits)
next
  case False
  obtain res sc1 evp where tr: "translate k t e sc ofs len = (res, sc1, evp)"
    by (cases "translate k t e sc ofs len")
  show ?thesis
  proof (cases res)
    case (Inl err)
    then show ?thesis using assms False tr by (simp add: amzn_sfp_rw_def)
  next
    case (Inr x)
    obtain addr reg n where x: "x = (addr, reg, n)" by (cases x)
    obtain rd evd where dp: "data_phase k t e sc1 addr reg buf n flags = (rd, evd)"
      by (cases "data_phase k t e sc1 addr reg buf n flags")
    have "evd = settle k t e sc1 @
        [I2C_transfer DataPhase (data_msgs addr reg buf (if 64 < n then 64 else n) flags)]"
      using data_phase_events [of k t e sc1 addr reg buf n flags] dp by simp
    then show ?thesis using assms False tr Inr x dp by (auto simp: amzn_sfp_rw_def)
  qed
qed

lemma rw_session:
  "fst (snd (amzn_sfp_rw k t e sc buf ofs len flags)) =
     (if ofs <s 0 \<or> attr_size sc \<le> ofs \<or> len = 0 \<or> attr_size sc < ofs + len then sc
      else fst (snd (translate k t e sc ofs len)))"
  by (auto simp: amzn_sfp_rw_def split: prod.splits sum.splits)

lemma settle_sleeps: "x \<in> set (settle k t e sc) \<Longrightarrow> is_sleep x"
  by (auto simp: settle_def Let_def split: if_splits)

lemma rw_qsfp_upper:
  assumes "is_qsfp (sfp_type sc)" "attr_size sc = 32896" "128 \<le> unat ofs"
    "unat ofs < 32896" "0 < unat len" "unat ofs + unat len \<le> 32896"
    "amzn_sfp_rw k t e sc buf ofs len flags = (r, sc', ev)"
  shows "\<exists>ps evp. page_select k t e sc (client_addr sc) (desired_page ofs) = (ps, sc', evp) \<and>
     (ev = evp \<or> (\<exists>ms. ps = None \<and> ev = evp @ settle k t e sc' @ [I2C_transfer DataPhase ms]))"
proof -
  have small: "unat ofs < 2 ^ 63" using assms(4) by simp
  obtain ps sc1 evp where ps:
    "page_select k t e sc (client_addr sc) (desired_page ofs) = (ps, sc1, evp)"
    by (cases "page_select k t e sc (client_addr sc) (desired_page ofs)")
  show ?thesis
  proof (cases ps)
    case (Some err)
    have "translate k t e sc ofs len = (Inl err, sc1, evp)"
      using translate_qsfp_upper [OF assms(1,3) small, of k t e len] ps Some by simp
    then have "amzn_sfp_rw k t e sc buf ofs len flags = (Inl (Errno err), sc1, evp)"
      using assms(2-6) by (intro rw_error) simp_all
    with assms(7) ps show ?thesis by auto
  next
    case None
    have "translate k t e sc ofs len =
       (Inr (client_addr sc, page_reg ofs, clamp_len len (page_reg ofs) AMZN_SFP_FULL_SIZE),
        sc1, evp)"
      using translate_qsfp_upper [OF assms(1,3) small, of k t e len] ps None by simp
    then have "amzn_sfp_rw k t e sc buf ofs len flags =
       (fst (data_phase k t e sc1 (client_addr sc) (page_reg ofs) buf
               (clamp_len len (page_reg ofs) AMZN_SFP_FULL_SIZE) flags), sc1,
        evp @ settle k t e sc1 @
          [I2C_transfer DataPhase (data_msgs (client_addr sc) (page_reg ofs) buf
             (if 64 < clamp_len len (page_reg ofs) AMZN_SFP_FULL_SIZE then 64
              else clamp_len len (page_reg ofs) AMZN_SFP_FULL_SIZE) flags)])"
      using assms(2-6) by (intro rw_data) simp_all
    with assms(7) ps None show ?thesis by auto
  qed
qed

lemma page_select_one_write:
  "length (filter is_page_write (snd (snd (page_select k t e sc addr p)))) \<le> 1"
  by (auto simp: page_defs Let_def split: if_splits prod.splits option.splits)

text \<open>
  C1 (as amended). For every read or write: if the access performs the page-select
  verification read and that transfer fails, or performs the page-select write and that
  transfer fails, the believed page afterwards is \<open>-1\<close> and the error of the transfer is
  returned. The outcome of the data phase has no influence on the session: after a failed
  data phase the session is what the paging step left.
\<close>

theorem page_failure_invalidates:
  assumes "amzn_sfp_rw k t e sc buf ofs len flags = (r, sc', ev)"
  shows "((\<exists>ms. I2C_transfer PageSelectRead ms \<in> set ev) \<and> verify_ret e < 0 \<longrightarrow>
            cur_page sc' = - 1 \<and> r = Inl (Errno (verify_ret e))) \<and>
         ((\<exists>ms. I2C_transfer PageSelectWrite ms \<in> set ev) \<and> select_ret e < 0 \<longrightarrow>
            cur_page sc' = - 1 \<and> r = Inl (Errno (select_ret e))) \<and>
         fst (snd (amzn_sfp_rw k t (e\<lparr>data_ret := d\<rparr>) sc buf ofs len flags)) = sc'"
proof -
  have frame: "fst (snd (amzn_sfp_rw k t (e\<lparr>data_ret := d\<rparr>) sc buf ofs len flags)) = sc'"
    using assms rw_session [of k t e sc buf ofs len flags]
    by (simp add: rw_session [of k t "e\<lparr>data_ret := d\<rparr>"] translate_data_ret)
  have page: "cur_page sc' = - 1 \<and> r = Inl (Errno err)"
    if ev: "I2C_transfer ph ms \<in> set ev" and ph: "ph = PageSelectRead \<or> ph = PageSelectWrite"
      and fail: "ph = PageSelectRead \<longrightarrow> verify_ret e < 0 \<and> err = verify_ret e"
        "ph = PageSelectWrite \<longrightarrow> select_ret e < 0 \<and> err = select_ret e"
    for ph ms err
  proof -
    from rw_shape [OF assms] ev obtain res evp where
      tr: "translate k t e sc ofs len = (res, sc', evp)"
      and sh: "(\<exists>err. res = Inl err \<and> r = Inl (Errno err) \<and> ev = evp) \<or>
         (\<exists>addr reg n. res = Inr (addr, reg, n) \<and>
            ev = evp @ settle k t e sc' @
              [I2C_transfer DataPhase
                 (data_msgs addr reg buf (if 64 < n then 64 else n) flags)])"
      by auto
    have "I2C_transfer ph ms \<notin> set (settle k t e sc')"
      using ph settle_no_page_select [of "I2C_transfer ph ms" k t e sc'] by auto
    then have inp: "I2C_transfer ph ms \<in> set evp"
      using sh ev ph by auto
    then obtain ps where sel:
      "page_select k t e sc (client_addr sc) (desired_page ofs) = (ps, sc', evp)"
      and res: "case ps of Some err \<Rightarrow> res = Inl err | None \<Rightarrow> \<exists>x. res = Inr x"
      using translate_session [OF tr] by auto
    have "ps = Some err \<and> cur_page sc' = - 1"
      using page_select_failure [OF sel] inp ph fail by auto
    then show ?thesis using res sh by auto
  qed
  show ?thesis using frame page [of PageSelectRead] page [of PageSelectWrite] by blast
qed

theorem page_failure_invalidates_witness:
  "amzn_sfp_rw (linux 1000 True) default_tunables (quiet_env\<lparr>j_check := 5000, verify_ret := - 5\<rparr>)
       ((amzn_sfp_probe 80 AMZN_SFP_TYPE_QSFP28)\<lparr>cur_page := 3, cur_page_ts := 900\<rparr>)
       [] 128 1 I2C_M_RD =
     (Inl (Errno (- 5)),
      (amzn_sfp_probe 80 AMZN_SFP_TYPE_QSFP28)\<lparr>cur_page := - 1, cur_page_ts := 900\<rparr>,
      [I2C_transfer PageSelectRead (page_read_msgs 80)]) \<and>
   amzn_sfp_rw (linux 1000 True) default_tunables (quiet_env\<lparr>select_ret := - 6\<rparr>)
       ((amzn_sfp_probe 80 AMZN_SFP_TYPE_QSFP28)\<lparr>cur_page := 3, cur_page_ts := 900\<rparr>)
       [] 128 1 I2C_M_RD =
     (Inl (Errno (- 6)),
      (amzn_sfp_probe 80 AMZN_SFP_TYPE_QSFP28)\<lparr>cur_page := - 1, cur_page_ts := 900\<rparr>,
      [I2C_transfer PageSelectWrite (page_write_msgs 80 0)])"
  using
    page_failure_invalidates [of "linux 1000 True" default_tunables
      "quiet_env\<lparr>j_check := 5000, verify_ret := - 5\<rparr>"
      "(amzn_sfp_probe 80 AMZN_SFP_TYPE_QSFP28)\<lparr>cur_page := 3, cur_page_ts := 900\<rparr>"
      "[]" 128 1 I2C_M_RD "Inl (Errno (- 5))"
      "(amzn_sfp_probe 80 AMZN_SFP_TYPE_QSFP28)\<lparr>cur_page := - 1, cur_page_ts := 900\<rparr>"
      "[I2C_transfer PageSelectRead (page_read_msgs 80)]" 2]
    page_failure_invalidates [of "linux 1000 True" default_tunables
      "quiet_env\<lparr>select_ret := - 6\<rparr>"
      "(amzn_sfp_probe 80 AMZN_SFP_TYPE_QSFP28)\<lparr>cur_page := 3, cur_page_ts := 900\<rparr>"
      "[]" 128 1 I2C_M_RD "Inl (Errno (- 6))"
      "(amzn_sfp_probe 80 AMZN_SFP_TYPE_QSFP28)\<lparr>cur_page := - 1, cur_page_ts := 900\<rparr>"
      "[I2C_transfer PageSelectWrite (page_write_msgs 80 0)]" 1]
  by (simp add: rw_defs)

theorem page_failure_invalidates_counterexample:
  "amzn_sfp_rw (linux 1000 True) default_tunables (quiet_env\<lparr>data_ret := - 5\<rparr>)
       (amzn_sfp_probe 80 AMZN_SFP_TYPE_QSFP28) [] 128 1 I2C_M_RD =
     (Inl (Errno (- 5)),
      (amzn_sfp_probe 80 AMZN_SFP_TYPE_QSFP28)\<lparr>cur_page := 0, cur_page_ts := 1000\<rparr>,
      [I2C_transfer PageSelectRead (page_read_msgs 80),
       Usleep_range 4000 5000,
       I2C_transfer DataPhase (data_msgs 80 128 [] 1 I2C_M_RD)]) \<and>
   cur_page ((amzn_sfp_probe 80 AMZN_SFP_TYPE_QSFP28)\<lparr>cur_page := 0, cur_page_ts := 1000\<rparr>)
     \<noteq> - 1"
  by (simp add: rw_defs)

text \<open>
  C6. For every valid access to the upper half of a QSFP-family session: if the believed
  page is \<open>-1\<close>, or the current time is not within the retention time of the timestamp
  (as \<^verbatim>\<open>time_in_range\<close> has it), the first thing the access does is the read of the
  page-select register, whatever the believed and the desired page are; otherwise the
  access issues no such read.
\<close>

theorem stale_belief_is_verified:
  assumes "is_qsfp (sfp_type sc)" "attr_size sc = 32896" "128 \<le> unat ofs"
    "unat ofs < 32896" "0 < unat len" "unat ofs + unat len \<le> 32896"
    "amzn_sfp_rw k t e sc buf ofs len flags = (r, sc', ev)"
  shows
    "(cur_page sc = - 1 \<or>
      \<not> time_in_range k (j_check e) (cur_page_ts sc)
          (cur_page_ts sc + scast (amzn_sfp_page_retention t * HZ k)) \<longrightarrow>
        (\<exists>rest. ev = I2C_transfer PageSelectRead (page_read_msgs (client_addr sc)) # rest)) \<and>
     (cur_page sc \<noteq> - 1 \<and>
      time_in_range k (j_check e) (cur_page_ts sc)
          (cur_page_ts sc + scast (amzn_sfp_page_retention t * HZ k)) \<longrightarrow>
        (\<forall>x \<in> set ev. \<not> is_page_read x))"
proof -
  obtain ps evp where
    sel: "page_select k t e sc (client_addr sc) (desired_page ofs) = (ps, sc', evp)"
    and ev: "ev = evp \<or> (\<exists>ms. ev = evp @ settle k t e sc' @ [I2C_transfer DataPhase ms])"
    using rw_qsfp_upper [OF assms] by blast
  have stale: "\<exists>rest. ev = I2C_transfer PageSelectRead (page_read_msgs (client_addr sc)) # rest"
    if "page_stale k t e sc"
    using page_select_stale [OF that, of "client_addr sc" "desired_page ofs"] sel ev by auto
  have fresh: "\<forall>x \<in> set ev. \<not> is_page_read x" if "\<not> page_stale k t e sc"
  proof
    fix x assume "x \<in> set ev"
    then consider "x \<in> set evp" | "x \<in> set (settle k t e sc')" | "is_data x"
      using ev by auto
    then show "\<not> is_page_read x"
    proof cases
      case 1
      then show ?thesis
        using page_select_fresh [OF that, of x "client_addr sc" "desired_page ofs"] sel by simp
    next
      case 2
      then show ?thesis by (auto simp: settle_def Let_def split: if_splits)
    next
      case 3
      then show ?thesis by (cases x rule: is_data.cases) simp_all
    qed
  qed
  show ?thesis using stale fresh by (simp add: page_stale_def Let_def)
qed

theorem stale_belief_is_verified_witness:
  "amzn_sfp_rw (linux 1000 True) default_tunables (quiet_env\<lparr>j_check := 5000\<rparr>)
       ((amzn_sfp_probe 80 AMZN_SFP_TYPE_QSFP28)\<lparr>cur_page := 0, cur_page_ts := 900\<rparr>)
       [] 128 1 I2C_M_RD =
     (Inr 1, (amzn_sfp_probe 80 AMZN_SFP_TYPE_QSFP28)\<lparr>cur_page := 0, cur_page_ts := 1000\<rparr>,
      [I2C_transfer PageSelectRead (page_read_msgs 80), Usleep_range 4000 5000,
       I2C_transfer DataPhase (data_msgs 80 128 [] 1 I2C_M_RD)]) \<and>
   amzn_sfp_rw (linux 1000 True) default_tunables quiet_env
       ((amzn_sfp_probe 80 AMZN_SFP_TYPE_QSFP28)\<lparr>cur_page := 0, cur_page_ts := 900\<rparr>)
       [] 128 1 I2C_M_RD =
     (Inr 1, (amzn_sfp_probe 80 AMZN_SFP_TYPE_QSFP28)\<lparr>cur_page := 0, cur_page_ts := 900\<rparr>,
      [I2C_transfer DataPhase (data_msgs 80 128 [] 1 I2C_M_RD)])"
proof -
  let ?sc = "(amzn_sfp_probe 80 AMZN_SFP_TYPE_QSFP28)\<lparr>cur_page := 0, cur_page_ts := 900\<rparr>"
  have q: "is_qsfp (sfp_type ?sc)" and size: "attr_size ?sc = 32896"
    by (simp_all add: rw_defs)
  have ofs: "128 \<le> unat (128 :: u64)" "unat (128 :: u64) < 32896" "0 < unat (1 :: u64)"
    "unat (128 :: u64) + unat (1 :: u64) \<le> 32896"
    by simp_all
  have stale: "amzn_sfp_rw (linux 1000 True) default_tunables (quiet_env\<lparr>j_check := 5000\<rparr>)
       ?sc [] 128 1 I2C_M_RD =
     (Inr 1, (amzn_sfp_probe 80 AMZN_SFP_TYPE_QSFP28)\<lparr>cur_page := 0, cur_page_ts := 1000\<rparr>,
      [I2C_transfer PageSelectRead (page_read_msgs 80), Usleep_range 4000 5000,
       I2C_transfer DataPhase (data_msgs 80 128 [] 1 I2C_M_RD)])"
    by (simp add: rw_defs)
  have fresh: "amzn_sfp_rw (linux 1000 True) default_tunables quiet_env ?sc [] 128 1 I2C_M_RD =
     (Inr 1, ?sc, [I2C_transfer DataPhase (data_msgs 80 128 [] 1 I2C_M_RD)])"
    by (simp add: rw_defs)
  show ?thesis
    using stale_belief_is_verified [OF q size ofs stale]
      stale_belief_is_verified [OF q size ofs fresh] stale fresh
    by simp
qed

text \<open>
  C4. Run the paging step twice in succession for the same desired page, the first run
  succeeding. If the second run falls within the retention time it trusts the belief; if
  it reads the register back, let that read succeed and the module still report the page.
  Then the second run succeeds, keeps the believed page and issues no page-select write,
  so both runs together issue at most one.
\<close>

theorem page_select_idempotent:
  assumes "page_select k t e1 sc addr p = (None, sc1, ev1)"
    and "page_select k t e2 sc1 addr p = (r2, sc2, ev2)"
    and "page_stale k t e2 sc1 \<longrightarrow> 0 \<le> verify_ret e2 \<and> verify_byte e2 = p"
  shows "r2 = None \<and> cur_page sc2 = cur_page sc1 \<and> (\<forall>x \<in> set ev2. \<not> is_page_write x) \<and>
     length (filter is_page_write (ev1 @ ev2)) \<le> 1"
proof -
  have believed: "cur_page sc1 = char_to_int k p"
    using page_select_success [OF assms(1)] by simp
  have second: "r2 = None \<and> cur_page sc2 = cur_page sc1 \<and> filter is_page_write ev2 = []"
    using assms(2,3) believed
    by (auto simp: page_defs Let_def split: if_splits prod.splits option.splits)
  have "length (filter is_page_write ev1) \<le> 1"
    using page_select_one_write [of k t e1 sc addr p] assms(1) by simp
  then show ?thesis using second by (auto simp: filter_empty_conv)
qed

theorem page_select_idempotent_witness:
  "page_select (linux 1000 True) default_tunables quiet_env
       ((amzn_sfp_probe 80 AMZN_SFP_TYPE_QSFP28)\<lparr>cur_page := 0, cur_page_ts := 900\<rparr>) 80 7 =
     (None, (amzn_sfp_probe 80 AMZN_SFP_TYPE_QSFP28)\<lparr>cur_page := 7, cur_page_ts := 1000\<rparr>,
      [I2C_transfer PageSelectWrite (page_write_msgs 80 7)]) \<and>
   page_select (linux 1000 True) default_tunables (quiet_env\<lparr>j_check := 1001\<rparr>)
       ((amzn_sfp_probe 80 AMZN_SFP_TYPE_QSFP28)\<lparr>cur_page := 7, cur_page_ts := 1000\<rparr>) 80 7 =
     (None, (amzn_sfp_probe 80 AMZN_SFP_TYPE_QSFP28)\<lparr>cur_page := 7, cur_page_ts := 1000\<rparr>, []) \<and>
   page_select (linux 1000 True) default_tunables
       (quiet_env\<lparr>j_check := 5000, j_verified := 5001, verify_byte := 7\<rparr>)
       ((amzn_sfp_probe 80 AMZN_SFP_TYPE_QSFP28)\<lparr>cur_page := 7, cur_page_ts := 1000\<rparr>) 80 7 =
     (None, (amzn_sfp_probe 80 AMZN_SFP_TYPE_QSFP28)\<lparr>cur_page := 7, cur_page_ts := 5001\<rparr>,
      [I2C_transfer PageSelectRead (page_read_msgs 80)])"
proof -
  let ?sc1 = "(amzn_sfp_probe 80 AMZN_SFP_TYPE_QSFP28)\<lparr>cur_page := 7, cur_page_ts := 1000\<rparr>"
  let ?soon = "quiet_env\<lparr>j_check := 1001\<rparr>"
  let ?late = "quiet_env\<lparr>j_check := 5000, j_verified := 5001, verify_byte := 7\<rparr>"
  have first: "page_select (linux 1000 True) default_tunables quiet_env
       ((amzn_sfp_probe 80 AMZN_SFP_TYPE_QSFP28)\<lparr>cur_page := 0, cur_page_ts := 900\<rparr>) 80 7 =
     (None, ?sc1, [I2C_transfer PageSelectWrite (page_write_msgs 80 7)])"
    by (simp add: rw_defs)
  have soon: "page_select (linux 1000 True) default_tunables ?soon ?sc1 80 7 = (None, ?sc1, [])"
    by (simp add: rw_defs)
  have late: "page_select (linux 1000 True) default_tunables ?late ?sc1 80 7 =
     (None, (amzn_sfp_probe 80 AMZN_SFP_TYPE_QSFP28)\<lparr>cur_page := 7, cur_page_ts := 5001\<rparr>,
      [I2C_transfer PageSelectRead (page_read_msgs 80)])"
    by (simp add: rw_defs)
  have ok_soon: "page_stale (linux 1000 True) default_tunables ?soon ?sc1 \<longrightarrow>
      0 \<le> verify_ret ?soon \<and> verify_byte ?soon = 7"
    by (simp add: rw_defs)
  have ok_late: "page_stale (linux 1000 True) default_tunables ?late ?sc1 \<longrightarrow>
      0 \<le> verify_ret ?late \<and> verify_byte ?late = 7"
    by (simp add: rw_defs)
  show ?thesis
    using page_select_idempotent [OF first soon ok_soon]
      page_select_idempotent [OF first late ok_late] first soon late
    by simp
qed

section \<open>The settle delay\<close>

lemma sint_nonneg_iff: "0 \<le> sint (w :: u64) \<longleftrightarrow> unat w < 2 ^ 63"
proof -
  have lt: "uint w < 2 ^ 64" using uint_lt2p [of w] by simp
  have ge: "0 \<le> uint w" by simp
  have "0 \<le> sint w \<longleftrightarrow> \<not> bit (uint w) 63" by (simp add: sint_uint)
  also have "\<dots> \<longleftrightarrow> \<not> odd (uint w div 2 ^ 63)" by (simp add: bit_iff_odd)
  also have "\<dots> \<longleftrightarrow> uint w < 2 ^ 63"
  proof (cases "uint w < 2 ^ 63")
    case True
    then have "uint w div 2 ^ 63 = 0" using ge by (intro div_pos_pos_trivial) simp_all
    then show ?thesis using True by simp
  next
    case False
    then have "uint w div 2 ^ 63 = (uint w - 2 ^ 63) div 2 ^ 63 + 1"
      by (intro div_pos_geq) simp_all
    moreover have "(uint w - 2 ^ 63) div 2 ^ 63 = 0"
      using False lt by (intro div_pos_pos_trivial) simp_all
    ultimately show ?thesis using False by simp
  qed
  also have "\<dots> \<longleftrightarrow> unat w < 2 ^ 63" 
    by (simp add: nat_less_iff flip: nat_uint_eq)
  finally show ?thesis .
qed

lemma unat_sub_wrap:
  assumes "(d :: u64) < x"
  shows "unat (d - x) = 2 ^ 64 + unat d - unat x"
  using assms by (simp add: unat_sub_if' word_less_nat_alt)

text \<open>
  With the kernel's \<^verbatim>\<open>time_in_range\<close>, a time lies in the window that starts at \<open>ts\<close>
  and lasts \<open>d\<close> ticks exactly when at most \<open>d\<close> ticks have elapsed since \<open>ts\<close>,
  wrap-around of the tick counter included.
\<close>

lemma linux_time_in_range_elapsed:
  assumes "unat d < 2 ^ 63"
  shows "linux_time_in_range j ts (ts + d) \<longleftrightarrow> unat (j - ts) \<le> unat d"
proof -
  define x where "x = j - ts"
  have diff: "ts + d - j = d - x" by (simp add: x_def)
  show ?thesis
  proof (cases "unat x \<le> unat d")
    case True
    then have "unat (d - x) = unat d - unat x" by (simp add: unat_sub word_le_nat_alt)
    then have "unat (d - x) < 2 ^ 63" "unat x < 2 ^ 63" using assms True by simp_all
    then show ?thesis using True
      by (simp add: linux_time_in_range_def diff sint_nonneg_iff flip: x_def)
  next
    case False
    then have lt: "d < x" by (simp add: word_less_nat_alt)
    have "unat (d - x) = 2 ^ 64 + unat d - unat x" by (rule unat_sub_wrap [OF lt])
    moreover have "unat x < 2 ^ 64" using unsigned_less [of x] by simp
    ultimately have "\<not> (unat x < 2 ^ 63 \<and> unat (d - x) < 2 ^ 63)"
      using False assms by auto
    then show ?thesis using False
      by (auto simp add: linux_time_in_range_def diff sint_nonneg_iff simp flip: x_def)
  qed
qed

lemma settle_cases:
  "settle k t e sc =
     (if time_in_range k (j_settle e) (cur_page_ts sc)
           (cur_page_ts sc + msecs_to_jiffies k (amzn_sfp_page_load_wait_ms t))
      then [Usleep_range (scast (amzn_sfp_page_load_wait_ms t * 1000))
              (scast (amzn_sfp_page_load_wait_ms t * 1000) + 1000)]
      else [])"
  by (simp add: settle_def settle_due_def Let_def)

text \<open>
  C3 (as amended). For every access that reaches its data phase, the sleep before the
  data-phase transfer is performed if and only if \<^verbatim>\<open>time_in_range\<close> finds the current
  time within \<^verbatim>\<open>msecs_to_jiffies(page_load_wait_ms)\<close> of the timestamp of the session.
  That timestamp is the time of the page-select write of this access if there is one,
  else of its verification read if there is one, else whatever earlier accesses left.
  The sleep asked for is the full \<^verbatim>\<open>usleep_range(wait * 1000, wait * 1000 + 1000)\<close>
  microseconds, placed right before the data phase; outside the window the access does
  not sleep.
\<close>

theorem settle_delay_rule:
  assumes "amzn_sfp_rw k t e sc buf ofs len flags = (r, sc', ev)"
    and "I2C_transfer DataPhase ms \<in> set ev"
  shows
    "(time_in_range k (j_settle e) (cur_page_ts sc')
          (cur_page_ts sc' + msecs_to_jiffies k (amzn_sfp_page_load_wait_ms t)) \<longrightarrow>
        (\<exists>pre. ev = pre @
            [Usleep_range (scast (amzn_sfp_page_load_wait_ms t * 1000))
               (scast (amzn_sfp_page_load_wait_ms t * 1000) + 1000),
             I2C_transfer DataPhase ms] \<and>
           (\<forall>x \<in> set pre. \<not> is_sleep x))) \<and>
     (\<not> time_in_range k (j_settle e) (cur_page_ts sc')
          (cur_page_ts sc' + msecs_to_jiffies k (amzn_sfp_page_load_wait_ms t)) \<longrightarrow>
        (\<forall>x \<in> set ev. \<not> is_sleep x)) \<and>
     cur_page_ts sc' =
       (if \<exists>x \<in> set ev. is_page_write x then j_selected e
        else if \<exists>x \<in> set ev. is_page_read x then j_verified e
        else cur_page_ts sc)"
proof -
  from rw_shape [OF assms(1)] assms(2) obtain res evp where
    tr: "translate k t e sc ofs len = (res, sc', evp)"
    and sh: "(\<exists>err. res = Inl err \<and> ev = evp) \<or>
       (\<exists>addr reg n. res = Inr (addr, reg, n) \<and>
          ev = evp @ settle k t e sc' @
            [I2C_transfer DataPhase
               (data_msgs addr reg buf (if 64 < n then 64 else n) flags)])"
    by auto
  have evp: "\<not> is_sleep x \<and> \<not> is_data x" if "x \<in> set evp" for x
    using translate_events [of x k t e sc ofs len] tr that by simp
  have nodata: "I2C_transfer DataPhase ms \<notin> set evp"
    using evp [of "I2C_transfer DataPhase ms"] by auto
  have nosettle: "I2C_transfer DataPhase ms \<notin> set (settle k t e sc')"
    using settle_sleeps [of "I2C_transfer DataPhase ms" k t e sc'] by auto
  from sh assms(2) nodata nosettle obtain x where res: "res = Inr x"
    and ev: "ev = evp @ settle k t e sc' @ [I2C_transfer DataPhase ms]"
    by auto
  have sleep: "\<exists>pre. ev = pre @
            [Usleep_range (scast (amzn_sfp_page_load_wait_ms t * 1000))
               (scast (amzn_sfp_page_load_wait_ms t * 1000) + 1000),
             I2C_transfer DataPhase ms] \<and>
           (\<forall>x \<in> set pre. \<not> is_sleep x)"
    if "time_in_range k (j_settle e) (cur_page_ts sc')
          (cur_page_ts sc' + msecs_to_jiffies k (amzn_sfp_page_load_wait_ms t))"
    using that evp by (intro exI [of _ evp]) (simp add: ev settle_cases)
  have nosleep: "\<forall>x \<in> set ev. \<not> is_sleep x"
    if "\<not> time_in_range k (j_settle e) (cur_page_ts sc')
          (cur_page_ts sc' + msecs_to_jiffies k (amzn_sfp_page_load_wait_ms t))"
    using that evp by (auto simp: ev settle_cases)
  have pw: "(\<exists>x \<in> set ev. is_page_write x) \<longleftrightarrow> (\<exists>x \<in> set evp. is_page_write x)"
    and pr: "(\<exists>x \<in> set ev. is_page_read x) \<longleftrightarrow> (\<exists>x \<in> set evp. is_page_read x)"
    by (auto simp: ev settle_cases)
  have ts: "cur_page_ts sc' =
       (if \<exists>x \<in> set evp. is_page_write x then j_selected e
        else if \<exists>x \<in> set evp. is_page_read x then j_verified e
        else cur_page_ts sc)"
  proof -
    from translate_session [OF tr] consider "evp = []" "sc' = sc"
      | ps where "page_select k t e sc (client_addr sc) (desired_page ofs) = (ps, sc', evp)"
          "case ps of Some err \<Rightarrow> res = Inl err | None \<Rightarrow> \<exists>x. res = Inr x"
      by blast
    then show ?thesis
    proof cases
      case 1
      then show ?thesis by simp
    next
      case 2
      then have "ps = None" using res by (cases ps) simp_all
      then show ?thesis using page_select_success [of k t e sc "client_addr sc" "desired_page ofs" sc' evp] 2(1)
        by simp
    qed
  qed
  show ?thesis using sleep nosleep ts unfolding pw pr by blast
qed

theorem settle_delay_rule_witness:
  "amzn_sfp_rw (linux 1000 True) default_tunables quiet_env
       (amzn_sfp_probe 80 AMZN_SFP_TYPE_QSFP28) [] 128 1 I2C_M_RD =
     (Inr 1, (amzn_sfp_probe 80 AMZN_SFP_TYPE_QSFP28)\<lparr>cur_page := 0, cur_page_ts := 1000\<rparr>,
      [I2C_transfer PageSelectRead (page_read_msgs 80), Usleep_range 4000 5000,
       I2C_transfer DataPhase (data_msgs 80 128 [] 1 I2C_M_RD)]) \<and>
   amzn_sfp_rw (linux 1000 True) default_tunables (quiet_env\<lparr>j_settle := 1005\<rparr>)
       ((amzn_sfp_probe 80 AMZN_SFP_TYPE_QSFP28)\<lparr>cur_page := 0, cur_page_ts := 1000\<rparr>)
       [] 128 1 I2C_M_RD =
     (Inr 1, (amzn_sfp_probe 80 AMZN_SFP_TYPE_QSFP28)\<lparr>cur_page := 0, cur_page_ts := 1000\<rparr>,
      [I2C_transfer DataPhase (data_msgs 80 128 [] 1 I2C_M_RD)])"
proof -
  let ?sc = "(amzn_sfp_probe 80 AMZN_SFP_TYPE_QSFP28)\<lparr>cur_page := 0, cur_page_ts := 1000\<rparr>"
  have inside: "amzn_sfp_rw (linux 1000 True) default_tunables quiet_env
       (amzn_sfp_probe 80 AMZN_SFP_TYPE_QSFP28) [] 128 1 I2C_M_RD =
     (Inr 1, ?sc,
      [I2C_transfer PageSelectRead (page_read_msgs 80), Usleep_range 4000 5000,
       I2C_transfer DataPhase (data_msgs 80 128 [] 1 I2C_M_RD)])"
    by (simp add: rw_defs)
  have after: "amzn_sfp_rw (linux 1000 True) default_tunables (quiet_env\<lparr>j_settle := 1005\<rparr>)
       ?sc [] 128 1 I2C_M_RD =
     (Inr 1, ?sc, [I2C_transfer DataPhase (data_msgs 80 128 [] 1 I2C_M_RD)])"
    by (simp add: rw_defs)
  show ?thesis
    using settle_delay_rule [OF inside, of "data_msgs 80 128 [] 1 I2C_M_RD"]
      settle_delay_rule [OF after, of "data_msgs 80 128 [] 1 I2C_M_RD"] inside after
    by simp
qed

theorem settle_delay_rule_counterexample:
  "amzn_sfp_rw (linux 1000 True) default_tunables quiet_env
       (amzn_sfp_probe 80 AMZN_SFP_TYPE_QSFP28) [] 128 1 I2C_M_RD =
     (Inr 1, (amzn_sfp_probe 80 AMZN_SFP_TYPE_QSFP28)\<lparr>cur_page := 0, cur_page_ts := 1000\<rparr>,
      [I2C_transfer PageSelectRead (page_read_msgs 80), Usleep_range 4000 5000,
       I2C_transfer DataPhase (data_msgs 80 128 [] 1 I2C_M_RD)]) \<and>
   amzn_sfp_rw (linux 1000 True) default_tunables (quiet_env\<lparr>j_settle := 1002\<rparr>)
       ((amzn_sfp_probe 80 AMZN_SFP_TYPE_QSFP28)\<lparr>cur_page := 0, cur_page_ts := 1000\<rparr>)
       [] 0 1 I2C_M_RD =
     (Inr 1, (amzn_sfp_probe 80 AMZN_SFP_TYPE_QSFP28)\<lparr>cur_page := 0, cur_page_ts := 1000\<rparr>,
      [Usleep_range 4000 5000, I2C_transfer DataPhase (data_msgs 80 0 [] 1 I2C_M_RD)])"
  by (simp add: rw_defs)

section \<open>The believed page after a page-select write\<close>

text \<open>
  A successful page-select write stores the desired page as a \<^verbatim>\<open>char\<close> promoted to
  \<^verbatim>\<open>int\<close>, and the time. Where \<^verbatim>\<open>char\<close> is unsigned, and for pages below 128
  everywhere, that is the page number.
\<close>

lemma page_write_stores:
  assumes "page_write k e sc addr p = (None, sc1, ev)" "ev \<noteq> []"
  shows "cur_page sc1 = char_to_int k p \<and> cur_page_ts sc1 = j_selected e"
  using assms by (auto simp: page_write_def Let_def split: if_splits)

lemma char_to_int_unsigned:
  "\<not> char_signed k \<Longrightarrow> char_to_int k p = int (unat p) \<and> char_to_int k p \<noteq> - 1"
proof -
  have "0 \<le> uint p" by (rule uint_ge_0)
  then have "uint p \<noteq> - 1" by arith
  then show "\<not> char_signed k \<Longrightarrow> ?thesis" by (simp add: char_to_int_def)
qed

lemma char_to_int_low:
  assumes "unat p < 128"
  shows "char_to_int k p = int (unat p)"
proof -
  have "uint p < 2 ^ 7" using assms by (simp add: nat_less_iff flip: nat_uint_eq)
  moreover have "- (2 ^ 7) \<le> uint p" by (rule order_trans [OF _ uint_ge_0]) simp
  ultimately have "signed_take_bit 7 (uint p) = uint p"
    by (intro signed_take_bit_int_eq_self) simp_all
  then show ?thesis by (simp add: char_to_int_def sint_uint)
qed

text \<open>
  C5. On a kernel where plain \<^verbatim>\<open>char\<close> is signed, a session that believes page 0 (as
  after a first access to offset 128) and is asked for offset 32768, on page 255, writes
  255 to the page-select register, succeeds, and believes page \<open>-1\<close> afterwards: the
  sentinel for an unknown page instead of the page it selected.
\<close>

theorem page_255_believed_unknown:
  "amzn_sfp_rw (linux 1000 True) default_tunables (quiet_env\<lparr>j_verified := 900\<rparr>)
       (amzn_sfp_probe 80 AMZN_SFP_TYPE_QSFP28) [] 128 1 I2C_M_RD =
     (Inr 1, (amzn_sfp_probe 80 AMZN_SFP_TYPE_QSFP28)\<lparr>cur_page := 0, cur_page_ts := 900\<rparr>,
      [I2C_transfer PageSelectRead (page_read_msgs 80),
       I2C_transfer DataPhase (data_msgs 80 128 [] 1 I2C_M_RD)]) \<and>
   amzn_sfp_rw (linux 1000 True) default_tunables quiet_env
       ((amzn_sfp_probe 80 AMZN_SFP_TYPE_QSFP28)\<lparr>cur_page := 0, cur_page_ts := 900\<rparr>)
       [] 32768 1 I2C_M_RD =
     (Inr 1, (amzn_sfp_probe 80 AMZN_SFP_TYPE_QSFP28)\<lparr>cur_page := - 1, cur_page_ts := 1000\<rparr>,
      [I2C_transfer PageSelectWrite (page_write_msgs 80 255), Usleep_range 4000 5000,
       I2C_transfer DataPhase (data_msgs 80 128 [] 1 I2C_M_RD)]) \<and>
   desired_page 32768 = 255"
  by (simp add: rw_defs)

end
